theory Spec2Isabelle
  imports Main "HOL-Library.AList"
begin

section \<open>Python values used by \<^verbatim>\<open>ytdl_gui.pyw\<close>\<close>

text \<open>
  A Python \<^verbatim>\<open>str\<close> is a sequence of Unicode code points. The texts the user types
  (URL, folder) may hold any code point, so a string is a list of naturals; the ASCII
  literals of the source are written with \<open>ascii\<close>.
\<close>

type_synonym pystr = "nat list"

definition ascii :: "string \<Rightarrow> pystr" where
  "ascii s = map of_char s"

text \<open>
  \<^verbatim>\<open>str.strip()\<close> with no argument removes leading and trailing whitespace, where
  whitespace is what \<^verbatim>\<open>str.isspace\<close> accepts: U+0009..U+000D, U+001C..U+0020, U+0085,
  U+00A0, U+1680, U+2000..U+200A, U+2028, U+2029, U+202F, U+205F and U+3000.
\<close>

definition isspace :: "nat \<Rightarrow> bool" where
  "isspace c \<longleftrightarrow>
     (9 \<le> c \<and> c \<le> 13) \<or> (28 \<le> c \<and> c \<le> 32) \<or> c = 133 \<or> c = 160 \<or> c = 5760 \<or>
     (8192 \<le> c \<and> c \<le> 8202) \<or> c = 8232 \<or> c = 8233 \<or> c = 8239 \<or> c = 8287 \<or> c = 12288"

definition strip :: "pystr \<Rightarrow> pystr" where
  "strip s = rev (dropWhile isspace (rev (dropWhile isspace s)))"

text \<open>\<^verbatim>\<open>x or ""\<close> on a string: \<^verbatim>\<open>x\<close> when it is non-empty, the default otherwise.\<close>

definition py_or :: "pystr \<Rightarrow> pystr \<Rightarrow> pystr" where
  "py_or x d = (if x = [] then d else x)"

text \<open>\<^verbatim>\<open>msg.startswith(p)\<close>.\<close>

definition startswith :: "pystr \<Rightarrow> pystr \<Rightarrow> bool" where
  "startswith msg p \<longleftrightarrow> take (length p) msg = p"

text \<open>
  The numbers the external tool hands to the progress hook are \<^verbatim>\<open>int\<close>,
  \<^verbatim>\<open>float\<close> or \<^verbatim>\<open>None\<close>. A float is kept as the value it denotes (\<open>m\<close> times two
  to the \<open>e\<close>, an infinity or a NaN); no float arithmetic is carried out here.
\<close>

datatype pyfloat = Finite int int | PosInf | NegInf | NaN

datatype pyval = PyNone | PyInt int | PyFloat pyfloat

text \<open>
  Truth of such a value: \<^verbatim>\<open>None\<close>, \<^verbatim>\<open>0\<close> and \<^verbatim>\<open>0.0\<close> are false, every
  other number (infinities and NaN too) is true. \<^verbatim>\<open>a or b\<close> is \<^verbatim>\<open>a\<close> when it is
  true and \<^verbatim>\<open>b\<close> otherwise.
\<close>

fun truthy :: "pyval \<Rightarrow> bool" where
  "truthy PyNone = False"
| "truthy (PyInt n) = (n \<noteq> 0)"
| "truthy (PyFloat (Finite m e)) = (m \<noteq> 0)"
| "truthy (PyFloat f) = True"

definition val_or :: "pyval \<Rightarrow> pyval \<Rightarrow> pyval" where
  "val_or a b = (if truthy a then a else b)"

text \<open>
  Arithmetic of an \<^verbatim>\<open>int\<close> with a \<^verbatim>\<open>float\<close>, and the format code \<^verbatim>\<open>f\<close> on an
  \<^verbatim>\<open>int\<close>, first convert the \<^verbatim>\<open>int\<close> to a \<^verbatim>\<open>float\<close>. The conversion rounds
  to the nearest double and raises \<^verbatim>\<open>OverflowError\<close> when the result is beyond the
  largest double \<open>2^1024 - 2^971\<close>, that is from \<open>2^1024 - 2^970\<close> on. Arithmetic
  with \<^verbatim>\<open>None\<close> raises \<^verbatim>\<open>TypeError\<close>.
\<close>

datatype py_error = TypeError | OverflowError

definition to_float_overflows :: "int \<Rightarrow> bool" where
  "to_float_overflows n \<longleftrightarrow> 2 ^ 1024 - 2 ^ 970 \<le> \<bar>n\<bar>"

text \<open>
  What converting an operand of float arithmetic raises, if anything: an operand that is
  a float already is taken as it is.
\<close>

fun as_float_error :: "pyval \<Rightarrow> py_error option" where
  "as_float_error PyNone = Some TypeError"
| "as_float_error (PyInt n) = (if to_float_overflows n then Some OverflowError else None)"
| "as_float_error (PyFloat f) = None"

text \<open>
  A Python \<^verbatim>\<open>dict\<close> keeps insertion order: assigning to a present key replaces its value
  in place, assigning to a new key appends. \<^verbatim>\<open>d.update(e)\<close> assigns the items of
  \<^verbatim>\<open>e\<close> in order, \<^verbatim>\<open>d.get(k, default)\<close> reads with a default.
\<close>

type_synonym ('k, 'v) dict = "('k \<times> 'v) list"

definition dict_set :: "'k \<Rightarrow> 'v \<Rightarrow> ('k, 'v) dict \<Rightarrow> ('k, 'v) dict" where
  "dict_set k v d = AList.update k v d"

definition dict_update :: "('k, 'v) dict \<Rightarrow> ('k, 'v) dict \<Rightarrow> ('k, 'v) dict" where
  "dict_update d e = fold (\<lambda>(k, v). dict_set k v) e d"

definition dict_get :: "('k, 'v) dict \<Rightarrow> 'k \<Rightarrow> 'v \<Rightarrow> 'v" where
  "dict_get d k dflt = (case map_of d k of None \<Rightarrow> dflt | Some v \<Rightarrow> v)"

section \<open>The data of the interface\<close>

text \<open>
  The texts shown to the user are Japanese literals of the source; each is a constructor
  here, named after what it says, with the source line it stands for.

  Log lines (everything passed to \<^verbatim>\<open>_log\<close>):
  \<^item> \<open>LogReady\<close>: line 183, the greeting of \<^verbatim>\<open>_build_widgets\<close>;
  \<^item> \<open>LogToggled b\<close>: line 196, the format was switched, \<open>b\<close> is the new value of the
    toggle (True = MP3, False = MP4);
  \<^item> \<open>LogStart\<close>: line 234, the download starts;
  \<^item> \<open>LogCancelRequested\<close>: line 242, the cancel request was received, work may go on
    until the current unit ends;
  \<^item> \<open>LogTool msg\<close>: line 295, a message of the external tool's logger, unchanged;
  \<^item> \<open>LogProgress p total speed eta\<close>: line 308, a progress line, with the four values
    its text is formatted from: the bytes so far, the total, \<^verbatim>\<open>speed or 0\<close> and
    \<^verbatim>\<open>eta or 0\<close> (the percentage is \<^verbatim>\<open>p * 100.0 / total\<close>; the float result and the
    formatted text are not computed here);
  \<^item> \<open>LogConverting\<close>: line 310, converting or merging;
  \<^item> \<open>LogDone path\<close>: line 321, done, followed by the saved path;
  \<^item> \<open>LogDoneOpenFolder\<close>: line 327, done, the file name may differ, the folder is
    opened;
  \<^item> \<open>LogError e\<close>: line 334, an error, followed by the exception's text;
  \<^item> \<open>LogIdle\<close>: line 340, waiting, another URL can be given.
\<close>

datatype log_line =
    LogReady
  | LogToggled bool
  | LogStart
  | LogCancelRequested
  | LogTool pystr
  | LogProgress pyval pyval pyval pyval
  | LogConverting
  | LogDone pystr
  | LogDoneOpenFolder
  | LogError pystr
  | LogIdle

text \<open>
  Message boxes. The two validation warnings have the title "input missing" (lines 215
  and 218); the dependency errors and the worker's error have the title "error" (lines
  225, 228, 335).
\<close>

datatype title = InputMissing | ErrorTitle

datatype message =
    EnterUrl
  | SpecifySaveDir
  | YtdlpNotFound
  | FfmpegNotFound
  | DownloadFailed pystr

datatype dialog = ShowWarning title message | ShowError title message

datatype btn_state = Normal | Disabled

text \<open>
  The arguments a worker thread is started with (line 237):
  \<^verbatim>\<open>args=(url, save_dir, self.as_mp3_var.get())\<close>.
\<close>

record job =
  job_url :: pystr
  job_dir :: pystr
  job_mp3 :: bool

text \<open>
  The statements a worker thread executes on the state it shares with the interface,
  once \<^verbatim>\<open>extract_info\<close> has returned or something has raised: a call of \<^verbatim>\<open>_log\<close>,
  the error box of line 335, \<^verbatim>\<open>os.startfile\<close> in its \<^verbatim>\<open>try\<close> (lines 322 to 325 and
  328 to 331), and the three assignments of the \<^verbatim>\<open>finally\<close> block (lines 337, 338
  and 339).
\<close>

datatype stmt =
    PutLog log_line
  | ShowErrorBox message
  | StartFile pystr
  | ClearFlag
  | EnableRun
  | DisableCancel

text \<open>
  Where a worker thread is: started and not yet at line 263; inside
  \<^verbatim>\<open>extract_info\<close> (lines 314 and 315), where the tool calls back; or past it, with
  the statements it still has to execute. A thread with none left ends.
\<close>

datatype phase = Starting | InTool | After "stmt list"

record thread =
  th_job :: job
  th_phase :: phase

text \<open>
  The options handed to the external tool. Values are strings, booleans, the list of
  post-processor dictionaries, the logger object and the list holding the progress hook.
\<close>

datatype optval =
    Str pystr
  | Bool bool
  | Postprocessors "(string, pystr) dict list"
  | LoggerObj
  | ProgressHooks

text \<open>
  The state: the attributes of \<^verbatim>\<open>YtDlGUI\<close> that the handlers read or write, the state
  of the two buttons, the lines of the log pane, and what the program has done to the
  outside: message boxes shown, paths handed to \<^verbatim>\<open>os.startfile\<close> that opened, calls
  of the external tool \<^verbatim>\<open>extract_info(url, download=True)\<close> with their options, and
  the worker threads that are alive, each with its arguments and where it is.
\<close>

record gui =
  url_var :: pystr
  save_dir_var :: pystr
  as_mp3_var :: bool
  log_queue :: "log_line list"
  is_downloading :: bool
  worker_thread :: "job option"
  run_btn :: btn_state
  cancel_btn :: btn_state
  log_text :: "log_line list"
  dialogs :: "dialog list"
  opened :: "pystr list"
  tool_calls :: "(pystr \<times> (string, optval) dict) list"
  threads :: "thread list"

text \<open>
  What a submission observes of its environment: \<^verbatim>\<open>os.path.isdir\<close>, whether
  \<^verbatim>\<open>import yt_dlp\<close> succeeds, whether \<^verbatim>\<open>shutil.which("ffmpeg")\<close> finds the tool.
\<close>

record env =
  isdir :: "pystr \<Rightarrow> bool"
  ytdlp_importable :: bool
  ffmpeg_on_path :: bool

section \<open>The log channel\<close>

text \<open>\<^verbatim>\<open>_log\<close> (line 258): \<^verbatim>\<open>self.log_queue.put(text)\<close>, at the tail of the FIFO queue.\<close>

definition log :: "log_line \<Rightarrow> gui \<Rightarrow> gui" where
  "log text s = s\<lparr>log_queue := log_queue s @ [text]\<rparr>"

text \<open>\<^verbatim>\<open>_append_log_line\<close> (line 254): the line goes to the end of the log pane.\<close>

definition append_log_line :: "log_line \<Rightarrow> gui \<Rightarrow> gui" where
  "append_log_line text s = s\<lparr>log_text := log_text s @ [text]\<rparr>"

text \<open>
  \<^verbatim>\<open>Queue.get_nowait\<close>: the head of the queue and the rest, or the exception
  \<^verbatim>\<open>queue.Empty\<close>.
\<close>

datatype queue_empty = Empty

definition get_nowait :: "'a list \<Rightarrow> queue_empty + ('a \<times> 'a list)" where
  "get_nowait q = (case q of [] \<Rightarrow> Inl Empty | x # q' \<Rightarrow> Inr (x, q'))"

text \<open>
  One turn of the loop of \<^verbatim>\<open>_poll_log_queue\<close> (lines 248, 249): take a line without
  blocking and append it; \<open>None\<close> when \<^verbatim>\<open>queue.Empty\<close> is raised.
\<close>

definition poll_iter :: "gui \<Rightarrow> gui option" where
  "poll_iter s =
     (case get_nowait (log_queue s) of
        Inl Empty \<Rightarrow> None
      | Inr (line, q') \<Rightarrow> Some (append_log_line line (s\<lparr>log_queue := q'\<rparr>)))"

text \<open>
  \<^verbatim>\<open>_poll_log_queue\<close> (line 245): \<^verbatim>\<open>while True\<close> until \<^verbatim>\<open>queue.Empty\<close>, which is
  caught and ends the drain. (The call re-arms its own timer for 100 ms later; the timer
  is the event \<open>PollTick\<close> below.)
\<close>

function poll_log_queue :: "gui \<Rightarrow> gui" where
  "poll_log_queue s = (case poll_iter s of None \<Rightarrow> s | Some s' \<Rightarrow> poll_log_queue s')"
  by pat_completeness auto
termination
  by (relation "measure (\<lambda>s. length (log_queue s))")
     (auto simp: poll_iter_def get_nowait_def append_log_line_def split: list.splits)

declare poll_log_queue.simps [simp del]

section \<open>The handlers of the interface\<close>

text \<open>\<^verbatim>\<open>_on_toggle_changed\<close> (line 194): only a log line.\<close>

definition on_toggle_changed :: "gui \<Rightarrow> gui" where
  "on_toggle_changed s = log (LogToggled (as_mp3_var s)) s"

text \<open>
  \<^verbatim>\<open>ToggleSwitch._toggle\<close> (line 78): negate the variable, redraw (presentation only),
  call the command, which is \<^verbatim>\<open>_on_toggle_changed\<close>.
\<close>

definition toggle :: "gui \<Rightarrow> gui" where
  "toggle s = on_toggle_changed (s\<lparr>as_mp3_var := \<not> as_mp3_var s\<rparr>)"

text \<open>
  \<^verbatim>\<open>_paste_from_clipboard\<close> (line 198): the clipboard's text, or nothing when
  \<^verbatim>\<open>clipboard_get\<close> raises.
\<close>

definition paste_from_clipboard :: "pystr option \<Rightarrow> gui \<Rightarrow> gui" where
  "paste_from_clipboard clip s = (case clip of None \<Rightarrow> s | Some t \<Rightarrow> s\<lparr>url_var := t\<rparr>)"

text \<open>\<^verbatim>\<open>_choose_dir\<close> (line 204): the chosen folder, when the dialog returned one.\<close>

definition choose_dir :: "pystr \<Rightarrow> gui \<Rightarrow> gui" where
  "choose_dir d s = (if d \<noteq> [] then s\<lparr>save_dir_var := d\<rparr> else s)"

text \<open>
  \<^verbatim>\<open>_on_run_clicked\<close> (line 209). Every \<^verbatim>\<open>return\<close> of the source is a branch. The
  thread started at line 239 is added to the threads alive, at its start; its arguments
  are the stripped texts and the value of the toggle read at line 237.
\<close>

definition on_run_clicked :: "env \<Rightarrow> gui \<Rightarrow> gui" where
  "on_run_clicked e s =
     (if is_downloading s then s
      else
        let url = strip (py_or (url_var s) []);
            save_dir = strip (py_or (save_dir_var s) [])
        in
          if url = [] then
            s\<lparr>dialogs := dialogs s @ [ShowWarning InputMissing EnterUrl]\<rparr>
          else if save_dir = [] \<or> \<not> isdir e save_dir then
            s\<lparr>dialogs := dialogs s @ [ShowWarning InputMissing SpecifySaveDir]\<rparr>
          else if \<not> ytdlp_importable e then
            s\<lparr>dialogs := dialogs s @ [ShowError ErrorTitle YtdlpNotFound]\<rparr>
          else if \<not> ffmpeg_on_path e then
            s\<lparr>dialogs := dialogs s @ [ShowError ErrorTitle FfmpegNotFound]\<rparr>
          else
            let s1 = s\<lparr>is_downloading := True\<rparr>;
                s2 = s1\<lparr>run_btn := Disabled\<rparr>;
                s3 = s2\<lparr>cancel_btn := Normal\<rparr>;
                s4 = log LogStart s3;
                t = \<lparr>job_url = url, job_dir = save_dir, job_mp3 = as_mp3_var s4\<rparr>
            in s4\<lparr>worker_thread := Some t,
                  threads := threads s4 @ [\<lparr>th_job = t, th_phase = Starting\<rparr>]\<rparr>)"

text \<open>\<^verbatim>\<open>_on_cancel_clicked\<close> (line 241): a log line, then the flag is cleared.\<close>

definition on_cancel_clicked :: "gui \<Rightarrow> gui" where
  "on_cancel_clicked s = (log LogCancelRequested s)\<lparr>is_downloading := False\<rparr>"

section \<open>The worker\<close>

text \<open>
  The dictionary the external tool passes to the progress hook. \<^verbatim>\<open>status\<close> is the
  text under that key (\<open>None\<close> when the key is absent or holds no text). The four keys
  read with \<^verbatim>\<open>d.get(k)\<close> hold a number or \<^verbatim>\<open>None\<close>, which is also what an absent
  key reads as. \<^verbatim>\<open>downloaded_bytes\<close> is read with the default \<^verbatim>\<open>0\<close>, so an absent
  key (\<open>None\<close> here) differs from a key that holds \<^verbatim>\<open>None\<close>.
\<close>

record hook_dict =
  status :: "pystr option"
  eta :: pyval
  speed :: pyval
  downloaded_bytes :: "pyval option"
  total_bytes :: pyval
  total_bytes_estimate :: pyval

text \<open>
  The class \<^verbatim>\<open>Logger\<close> (lines 288 to 295): its methods only call \<^verbatim>\<open>_log\<close>.
\<close>

definition logger_emit :: "pystr \<Rightarrow> gui \<Rightarrow> gui" where
  "logger_emit msg s = log (LogTool msg) s"

definition logger_debug :: "pystr \<Rightarrow> gui \<Rightarrow> gui" where
  "logger_debug msg s =
     (if msg \<noteq> [] \<and> \<not> startswith msg (ascii ''[debug]'') then logger_emit msg s else s)"

definition logger_warning :: "pystr \<Rightarrow> gui \<Rightarrow> gui" where
  "logger_warning msg s = logger_emit msg s"

definition logger_error :: "pystr \<Rightarrow> gui \<Rightarrow> gui" where
  "logger_error msg s = logger_emit msg s"

text \<open>
  The function \<^verbatim>\<open>hook\<close> (lines 300 to 310). With status "downloading" and a true
  total, line 307 computes \<^verbatim>\<open>p * 100.0 / total\<close>: the product raises when \<^verbatim>\<open>p\<close> is
  \<^verbatim>\<open>None\<close> or an \<^verbatim>\<open>int\<close> too large for a float, then the quotient raises when the
  total is such an \<^verbatim>\<open>int\<close> (a true total is not zero). Line 308 formats
  \<^verbatim>\<open>speed or 0\<close> with the code \<^verbatim>\<open>.0f\<close>, which raises on such an \<^verbatim>\<open>int\<close>, and
  puts the line on the queue. \<open>Inl\<close> is the exception, raised into the tool with
  nothing logged.
\<close>

definition hook :: "hook_dict \<Rightarrow> gui \<Rightarrow> py_error + gui" where
  "hook d s =
     (if status d = Some (ascii ''downloading'') then
        let eta' = eta d;
            speed' = speed d;
            p = (case downloaded_bytes d of None \<Rightarrow> PyInt 0 | Some v \<Rightarrow> v);
            total = val_or (total_bytes d) (total_bytes_estimate d)
        in if truthy total then
             (case as_float_error p of
                Some x \<Rightarrow> Inl x
              | None \<Rightarrow>
                  (case as_float_error total of
                     Some x \<Rightarrow> Inl x
                   | None \<Rightarrow>
                       (case as_float_error (val_or speed' (PyInt 0)) of
                          Some x \<Rightarrow> Inl x
                        | None \<Rightarrow>
                            Inr (log (LogProgress p total (val_or speed' (PyInt 0))
                                        (val_or eta' (PyInt 0))) s))))
           else Inr s
      else if status d = Some (ascii ''finished'') then Inr (log LogConverting s)
      else Inr s)"

text \<open>What the external tool calls back while \<^verbatim>\<open>extract_info\<close> runs.\<close>

datatype callback =
    LoggerDebug pystr
  | LoggerWarning pystr
  | LoggerError pystr
  | Hook hook_dict

fun callback_run :: "callback \<Rightarrow> gui \<Rightarrow> py_error + gui" where
  "callback_run (LoggerDebug msg) s = Inr (logger_debug msg s)"
| "callback_run (LoggerWarning msg) s = Inr (logger_warning msg s)"
| "callback_run (LoggerError msg) s = Inr (logger_error msg s)"
| "callback_run (Hook d) s = hook d s"

text \<open>
  The state after a callback. A callback that raises has changed nothing; its exception
  is the tool's to handle, and how the tool goes on is part of what the worker observes of
  it.
\<close>

definition callback_effect :: "callback \<Rightarrow> gui \<Rightarrow> gui" where
  "callback_effect cb s = (case callback_run cb s of Inl x \<Rightarrow> s | Inr s' \<Rightarrow> s')"

text \<open>
  An exception: one that \<^verbatim>\<open>except Exception\<close> catches, with its text, or one that it
  does not (\<^verbatim>\<open>SystemExit\<close>, \<^verbatim>\<open>KeyboardInterrupt\<close>).
\<close>

datatype exn = Exception pystr | BaseException pystr

text \<open>
  What a worker observes of the outside: \<^verbatim>\<open>os.path.join\<close> and \<^verbatim>\<open>os.path.exists\<close>
  of the platform, whether \<^verbatim>\<open>os.startfile\<close> opens a path (it raises otherwise, and
  where it does not exist), whether \<^verbatim>\<open>import yt_dlp\<close> raises, and how
  \<^verbatim>\<open>extract_info\<close> ends: with an exception or with the dictionary of metadata (its
  values as \<^verbatim>\<open>str\<close> formats them).
\<close>

record world =
  path_join :: "pystr \<Rightarrow> pystr \<Rightarrow> pystr"
  path_exists :: "pystr \<Rightarrow> bool"
  startfile_opens :: "pystr \<Rightarrow> bool"
  import_error :: "exn option"
  tool_result :: "exn + (string, pystr) dict"

text \<open>
  The options of lines 265 to 286, 298 and 312: the common entries, then the entries of
  the format, then the logger and the progress hook.
\<close>

definition ydl_opts :: "world \<Rightarrow> pystr \<Rightarrow> bool \<Rightarrow> (string, optval) dict" where
  "ydl_opts w save_dir as_mp3 =
     (let outtmpl = path_join w save_dir (ascii ''%(title)s [%(id)s].%(ext)s'');
          opts0 = [(''outtmpl'', Str outtmpl),
                   (''noprogress'', Bool True),
                   (''quiet'', Bool True),
                   (''windowsfilenames'', Bool True)];
          opts1 =
            (if as_mp3 then
               dict_update opts0
                 [(''format'', Str (ascii ''bestaudio/best'')),
                  (''postprocessors'', Postprocessors
                     [[(''key'', ascii ''FFmpegExtractAudio''),
                       (''preferredcodec'', ascii ''mp3''),
                       (''preferredquality'', ascii ''192'')]])]
             else
               dict_update opts0
                 [(''format'',
                     Str (ascii ''bestvideo[ext=mp4]+bestaudio[ext=m4a]/best[ext=mp4]/best'')),
                  (''merge_output_format'', Str (ascii ''mp4''))]);
          opts2 = dict_set ''logger'' LoggerObj opts1
      in dict_set ''progress_hooks'' ProgressHooks opts2)"

text \<open>\<^verbatim>\<open>try: os.startfile(p) except Exception: pass\<close> (lines 322 and 328).\<close>

definition startfile :: "world \<Rightarrow> pystr \<Rightarrow> gui \<Rightarrow> gui" where
  "startfile w p s = (if startfile_opens w p then s\<lparr>opened := opened s @ [p]\<rparr> else s)"

text \<open>
  The \<^verbatim>\<open>try\<close> block of \<^verbatim>\<open>_do_download\<close> (lines 262 to 331), with the callbacks the
  tool makes during \<^verbatim>\<open>extract_info\<close>: \<open>Inl\<close> is an exception with the state it left.
\<close>

definition download_body :: "world \<Rightarrow> callback list \<Rightarrow> job \<Rightarrow> gui \<Rightarrow> (exn \<times> gui) + gui" where
  "download_body w cbs j s =
     (case import_error w of
        Some e \<Rightarrow> Inl (e, s)
      | None \<Rightarrow>
          let opts = ydl_opts w (job_dir j) (job_mp3 j);
              s1 = s\<lparr>tool_calls := tool_calls s @ [(job_url j, opts)]\<rparr>;
              s2 = fold callback_effect cbs s1
          in (case tool_result w of
                Inl e \<Rightarrow> Inl (e, s2)
              | Inr info \<Rightarrow>
                  let base = dict_get info ''title'' (ascii ''download'') @ ascii '' ['' @
                             dict_get info ''id'' (ascii ''id'') @ ascii ''].'' @
                             (if job_mp3 j then ascii ''mp3'' else ascii ''mp4'');
                      saved_path = path_join w (job_dir j) base
                  in if path_exists w saved_path
                     then Inr (startfile w saved_path (log (LogDone saved_path) s2))
                     else Inr (startfile w (job_dir j) (log LogDoneOpenFolder s2))))"

text \<open>The handler \<^verbatim>\<open>except Exception as e\<close> (lines 333 to 335).\<close>

definition except_block :: "pystr \<Rightarrow> gui \<Rightarrow> gui" where
  "except_block e s =
     (let s1 = log (LogError e) s
      in s1\<lparr>dialogs := dialogs s1 @ [ShowError ErrorTitle (DownloadFailed e)]\<rparr>)"

text \<open>The \<^verbatim>\<open>finally\<close> block (lines 336 to 340).\<close>

definition finally_block :: "gui \<Rightarrow> gui" where
  "finally_block s =
     (let s1 = s\<lparr>is_downloading := False\<rparr>;
          s2 = s1\<lparr>run_btn := Normal\<rparr>;
          s3 = s2\<lparr>cancel_btn := Disabled\<rparr>
      in log LogIdle s3)"

text \<open>
  \<^verbatim>\<open>_do_download\<close> (line 261): the body; the handler when the body raised an
  \<^verbatim>\<open>Exception\<close>; the \<^verbatim>\<open>finally\<close> block in every case.
\<close>

definition do_download :: "world \<Rightarrow> callback list \<Rightarrow> job \<Rightarrow> gui \<Rightarrow> gui" where
  "do_download w cbs j s =
     finally_block
       (case download_body w cbs j s of
          Inl (Exception e, s') \<Rightarrow> except_block e s'
        | Inl (BaseException e, s') \<Rightarrow> s'
        | Inr s' \<Rightarrow> s')"

section \<open>The worker, statement by statement\<close>

text \<open>
  The interface and a worker run at the same time, so the interface can act between any
  two statements of \<^verbatim>\<open>_do_download\<close>. What each statement does to the shared state:
\<close>

fun exec :: "world \<Rightarrow> stmt \<Rightarrow> gui \<Rightarrow> gui" where
  "exec w (PutLog l) s = log l s"
| "exec w (ShowErrorBox m) s = s\<lparr>dialogs := dialogs s @ [ShowError ErrorTitle m]\<rparr>"
| "exec w (StartFile p) s = startfile w p s"
| "exec w ClearFlag s = s\<lparr>is_downloading := False\<rparr>"
| "exec w EnableRun s = s\<lparr>run_btn := Normal\<rparr>"
| "exec w DisableCancel s = s\<lparr>cancel_btn := Disabled\<rparr>"

text \<open>
  The statements of the handler (lines 334 and 335), which an exception that is not an
  \<^verbatim>\<open>Exception\<close> skips; of the \<^verbatim>\<open>finally\<close> block (lines 337 to 340); and of the
  rest of the \<^verbatim>\<open>try\<close> block after \<^verbatim>\<open>extract_info\<close> has returned (lines 317 to
  331).
\<close>

definition handler_stmts :: "exn \<Rightarrow> stmt list" where
  "handler_stmts x =
     (case x of
        Exception e \<Rightarrow> [PutLog (LogError e), ShowErrorBox (DownloadFailed e)]
      | BaseException e \<Rightarrow> [])"

definition finally_stmts :: "stmt list" where
  "finally_stmts = [ClearFlag, EnableRun, DisableCancel, PutLog LogIdle]"

definition done_stmts :: "world \<Rightarrow> job \<Rightarrow> (string, pystr) dict \<Rightarrow> stmt list" where
  "done_stmts w j info =
     (let base = dict_get info ''title'' (ascii ''download'') @ ascii '' ['' @
                 dict_get info ''id'' (ascii ''id'') @ ascii ''].'' @
                 (if job_mp3 j then ascii ''mp3'' else ascii ''mp4'');
          saved_path = path_join w (job_dir j) base
      in if path_exists w saved_path
         then [PutLog (LogDone saved_path), StartFile saved_path]
         else [PutLog LogDoneOpenFolder, StartFile (job_dir j)])"

text \<open>
  What is left to execute when \<^verbatim>\<open>import yt_dlp\<close> has raised, and when
  \<^verbatim>\<open>extract_info\<close> has raised or returned.
\<close>

definition after_raise :: "exn \<Rightarrow> stmt list" where
  "after_raise x = handler_stmts x @ finally_stmts"

definition after_tool :: "world \<Rightarrow> job \<Rightarrow> stmt list" where
  "after_tool w j =
     (case tool_result w of
        Inl x \<Rightarrow> after_raise x
      | Inr info \<Rightarrow> done_stmts w j info @ finally_stmts)"

section \<open>The program as a transition system\<close>

text \<open>
  \<^verbatim>\<open>__init__\<close> (line 116) with \<^verbatim>\<open>_build_widgets\<close> (line 135): the run button is
  created enabled, the cancel button disabled, the greeting is logged, the folder
  \<^verbatim>\<open>~/Downloads\<close> is the default when it exists (\<open>default_dl\<close>), and the first poll runs.
\<close>

definition build_widgets :: "pystr option \<Rightarrow> gui \<Rightarrow> gui" where
  "build_widgets default_dl s =
     (let s1 = log LogReady (s\<lparr>run_btn := Normal, cancel_btn := Disabled, log_text := []\<rparr>)
      in case default_dl of None \<Rightarrow> s1 | Some d \<Rightarrow> s1\<lparr>save_dir_var := d\<rparr>)"

definition init :: "pystr option \<Rightarrow> gui" where
  "init default_dl =
     poll_log_queue (build_widgets default_dl
       \<lparr>url_var = [], save_dir_var = [], as_mp3_var = True, log_queue = [],
        is_downloading = False, worker_thread = None, run_btn = Normal,
        cancel_btn = Disabled, log_text = [], dialogs = [], opened = [],
        tool_calls = [], threads = []\<rparr>)"

text \<open>
  The events of a run. The user edits a field, pastes, picks a folder, clicks the toggle
  or a button; the timer fires. A click on a button reaches its command only while the
  button is enabled (a disabled \<^verbatim>\<open>ttk.Button\<close> ignores clicks). The handlers of
  the interface run on the main thread, one after the other, each as one event. Worker
  \<open>i\<close> moves on its own thread, one statement at a time, between any two events of the
  interface:
  \<^item> \<open>WorkerStart i w\<close>: the thread runs lines 263 to 314; when the import raises it goes
    to the handler, otherwise it calls the tool with the options of its request;
  \<^item> \<open>ToolCallback i cb\<close>: inside \<^verbatim>\<open>extract_info\<close>, the tool calls the logger or the
    progress hook;
  \<^item> \<open>ToolReturn i w\<close>: \<^verbatim>\<open>extract_info\<close> raises or returns, which fixes the
    statements left;
  \<^item> \<open>WorkerStep i w\<close>: the thread executes its next statement; with none left it ends
    and is no longer alive.
  The world \<open>w\<close> is what the thread observes of the outside at that moment.

  A statement that a worker executes while a handler runs is taken before or after the
  handler. Nothing is lost by that for the flag, the buttons and the threads: the flag is
  set on the main thread only; the handler of the run button is reached only while the
  button is enabled, when every thread alive has only lines 339 and 340 left, which write
  the cancel button and the queue; and the handler of the cancel button writes the queue
  and clears the flag, as line 337 does.
\<close>

datatype event =
    EditUrl pystr
  | EditDir pystr
  | ClickPaste "pystr option"
  | ChooseDir pystr
  | ClickToggle
  | ClickRun env
  | ClickCancel
  | PollTick
  | WorkerStart nat world
  | ToolCallback nat callback
  | ToolReturn nat world
  | WorkerStep nat world

definition remove_nth :: "nat \<Rightarrow> 'a list \<Rightarrow> 'a list" where
  "remove_nth i xs = take i xs @ drop (Suc i) xs"

definition set_phase :: "nat \<Rightarrow> phase \<Rightarrow> gui \<Rightarrow> gui" where
  "set_phase i p s = s\<lparr>threads := (threads s)[i := (threads s ! i)\<lparr>th_phase := p\<rparr>]\<rparr>"

definition worker_start :: "nat \<Rightarrow> world \<Rightarrow> gui \<Rightarrow> gui" where
  "worker_start i w s =
     (let j = th_job (threads s ! i)
      in case import_error w of
           Some x \<Rightarrow> set_phase i (After (after_raise x)) s
         | None \<Rightarrow>
             set_phase i InTool
               (s\<lparr>tool_calls := tool_calls s @
                    [(job_url j, ydl_opts w (job_dir j) (job_mp3 j))]\<rparr>))"

definition worker_step :: "nat \<Rightarrow> world \<Rightarrow> gui \<Rightarrow> gui" where
  "worker_step i w s =
     (case th_phase (threads s ! i) of
        After (st # rest) \<Rightarrow> set_phase i (After rest) (exec w st s)
      | After [] \<Rightarrow> s\<lparr>threads := remove_nth i (threads s)\<rparr>
      | _ \<Rightarrow> s)"

fun step :: "gui \<Rightarrow> event \<Rightarrow> gui" where
  "step s (EditUrl t) = s\<lparr>url_var := t\<rparr>"
| "step s (EditDir t) = s\<lparr>save_dir_var := t\<rparr>"
| "step s (ClickPaste clip) = paste_from_clipboard clip s"
| "step s (ChooseDir d) = choose_dir d s"
| "step s ClickToggle = toggle s"
| "step s (ClickRun e) = (if run_btn s = Normal then on_run_clicked e s else s)"
| "step s ClickCancel = (if cancel_btn s = Normal then on_cancel_clicked s else s)"
| "step s PollTick = poll_log_queue s"
| "step s (WorkerStart i w) =
     (if i < length (threads s) \<and> th_phase (threads s ! i) = Starting
      then worker_start i w s else s)"
| "step s (ToolCallback i cb) =
     (if i < length (threads s) \<and> th_phase (threads s ! i) = InTool
      then callback_effect cb s else s)"
| "step s (ToolReturn i w) =
     (if i < length (threads s) \<and> th_phase (threads s ! i) = InTool
      then set_phase i (After (after_tool w (th_job (threads s ! i)))) s else s)"
| "step s (WorkerStep i w) = (if i < length (threads s) then worker_step i w s else s)"

definition run :: "gui \<Rightarrow> event list \<Rightarrow> gui" where
  "run s evs = foldl step s evs"

text \<open>
  The events of one worker from its start to its end, with nothing in between: the start,
  the tool's callbacks and its return when the import succeeded, then one step for each
  statement left and one more for the thread to end.
\<close>

definition worker_events :: "nat \<Rightarrow> world \<Rightarrow> callback list \<Rightarrow> job \<Rightarrow> event list" where
  "worker_events i w cbs j =
     (case import_error w of
        Some x \<Rightarrow>
          WorkerStart i w # replicate (Suc (length (after_raise x))) (WorkerStep i w)
      | None \<Rightarrow>
          WorkerStart i w # map (ToolCallback i) cbs @
          ToolReturn i w # replicate (Suc (length (after_tool w j))) (WorkerStep i w))"

text \<open>The log channel alone: a producer puts a line, the consumer takes one or drains.\<close>

datatype chan_op = Put log_line | Get | Drain

fun chan_step :: "gui \<Rightarrow> chan_op \<Rightarrow> gui" where
  "chan_step s (Put l) = log l s"
| "chan_step s Get = (case poll_iter s of None \<Rightarrow> s | Some s' \<Rightarrow> s')"
| "chan_step s Drain = poll_log_queue s"

fun puts :: "chan_op list \<Rightarrow> log_line list" where
  "puts [] = []"
| "puts (Put l # ops) = l # puts ops"
| "puts (_ # ops) = puts ops"

section \<open>Notions used by the properties\<close>

text \<open>
  A submission is valid when the four checks of \<^verbatim>\<open>_on_run_clicked\<close> pass on the
  stripped texts.
\<close>

definition valid_submission :: "env \<Rightarrow> gui \<Rightarrow> bool" where
  "valid_submission e s \<longleftrightarrow>
     strip (url_var s) \<noteq> [] \<and> strip (save_dir_var s) \<noteq> [] \<and>
     isdir e (strip (save_dir_var s)) \<and> ytdlp_importable e \<and> ffmpeg_on_path e"

text \<open>The job request of a submission: what line 237 passes to the thread.\<close>

definition request :: "gui \<Rightarrow> job" where
  "request s =
     \<lparr>job_url = strip (url_var s), job_dir = strip (save_dir_var s), job_mp3 = as_mp3_var s\<rparr>"

text \<open>The thread of a job, as line 239 starts it.\<close>

definition started :: "job \<Rightarrow> thread" where
  "started j = \<lparr>th_job = j, th_phase = Starting\<rparr>"

text \<open>
  A worker is at work until it has executed line 338, which enables the run button
  again: it is at its start, in the tool, or line 338 is among the statements it has
  left. It holds the flag until it has executed line 337.
\<close>

definition at_work :: "thread \<Rightarrow> bool" where
  "at_work t = (case th_phase t of After sts \<Rightarrow> EnableRun \<in> set sts | _ \<Rightarrow> True)"

definition holds_flag :: "thread \<Rightarrow> bool" where
  "holds_flag t = (case th_phase t of After sts \<Rightarrow> ClearFlag \<in> set sts | _ \<Rightarrow> True)"

text \<open>
  The statements a thread has left are the \<^verbatim>\<open>finally\<close> block, or what is left of
  it, after statements of the body or the handler only.
\<close>

fun plain :: "stmt \<Rightarrow> bool" where
  "plain (PutLog l) = True"
| "plain (ShowErrorBox m) = True"
| "plain (StartFile p) = True"
| "plain _ = False"

definition well_formed :: "thread \<Rightarrow> bool" where
  "well_formed t =
     (case th_phase t of
        After sts \<Rightarrow>
          (\<exists>pre. sts = pre @ finally_stmts \<and> list_all plain pre) \<or>
          sts = [EnableRun, DisableCancel, PutLog LogIdle] \<or>
          sts = [DisableCancel, PutLog LogIdle] \<or> sts = [PutLog LogIdle] \<or> sts = []
      | _ \<Rightarrow> True)"

text \<open>
  The states of a run keep the run button, the flag and the threads in step: at most one
  worker is at work; the run button is enabled exactly when none is; and the flag is
  clear whenever the run button is enabled or the worker at work has executed line 337.
\<close>

definition consistent :: "gui \<Rightarrow> bool" where
  "consistent s \<longleftrightarrow>
     list_all well_formed (threads s) \<and>
     length (filter at_work (threads s)) \<le> 1 \<and>
     (run_btn s = Normal \<longleftrightarrow> filter at_work (threads s) = []) \<and>
     (run_btn s = Normal \<or> list_ex (\<lambda>t. at_work t \<and> \<not> holds_flag t) (threads s)
        \<longrightarrow> \<not> is_downloading s)"

fun is_toggle :: "event \<Rightarrow> bool" where
  "is_toggle ClickToggle = True"
| "is_toggle _ = False"

fun is_cancel :: "event \<Rightarrow> bool" where
  "is_cancel ClickCancel = True"
| "is_cancel _ = False"

fun is_submit :: "event \<Rightarrow> bool" where
  "is_submit (ClickRun e) = True"
| "is_submit _ = False"

fun is_worker_step :: "event \<Rightarrow> bool" where
  "is_worker_step (WorkerStep i w) = True"
| "is_worker_step _ = False"

text \<open>
  A sequence of events in which no further job is submitted: every click on the run
  button comes while the button is disabled.
\<close>

fun no_new_job :: "gui \<Rightarrow> event list \<Rightarrow> bool" where
  "no_new_job s [] = True"
| "no_new_job s (ev # evs) =
     ((is_submit ev \<longrightarrow> run_btn s = Disabled) \<and> no_new_job (step s ev) evs)"

text \<open>
  A state with what only the toggle writes left out: the toggle's variable, and the
  log lines that report a switch.
\<close>

fun toggled_line :: "log_line \<Rightarrow> bool" where
  "toggled_line (LogToggled b) = True"
| "toggled_line _ = False"

definition untoggle :: "gui \<Rightarrow> gui" where
  "untoggle s =
     s\<lparr>as_mp3_var := True,
       log_queue := filter (\<lambda>l. \<not> toggled_line l) (log_queue s),
       log_text := filter (\<lambda>l. \<not> toggled_line l) (log_text s)\<rparr>"

text \<open>
  A state with what only a cancel request writes left out: the flag, and the log lines
  that acknowledge the request.
\<close>

definition uncancel :: "gui \<Rightarrow> gui" where
  "uncancel s =
     s\<lparr>is_downloading := False,
       log_queue := filter (\<lambda>l. l \<noteq> LogCancelRequested) (log_queue s),
       log_text := filter (\<lambda>l. l \<noteq> LogCancelRequested) (log_text s)\<rparr>"

text \<open>
  The four precondition checks of a submission, and for each the message box that
  reports its failure.
\<close>

datatype check = UrlGiven | DirValid | YtdlpAvailable | FfmpegAvailable

fun passes :: "env \<Rightarrow> gui \<Rightarrow> check \<Rightarrow> bool" where
  "passes e s UrlGiven = (strip (url_var s) \<noteq> [])"
| "passes e s DirValid = (strip (save_dir_var s) \<noteq> [] \<and> isdir e (strip (save_dir_var s)))"
| "passes e s YtdlpAvailable = ytdlp_importable e"
| "passes e s FfmpegAvailable = ffmpeg_on_path e"

fun report :: "check \<Rightarrow> dialog" where
  "report UrlGiven = ShowWarning InputMissing EnterUrl"
| "report DirValid = ShowWarning InputMissing SpecifySaveDir"
| "report YtdlpAvailable = ShowError ErrorTitle YtdlpNotFound"
| "report FfmpegAvailable = ShowError ErrorTitle FfmpegNotFound"

text \<open>
  Concrete inputs: an environment with both tools, one without the codec tool, a world in
  which the tool returns, the state with both fields filled in, the same with the toggle
  on MP4, the state of a job in flight, and its request; the state of this job when the
  tool has returned and its worker is about to execute line 337, and when the worker has
  executed line 338 and has lines 339 and 340 left.
\<close>

definition example_env :: env where
  "example_env =
     \<lparr>isdir = (=) (ascii ''/tmp/out''), ytdlp_importable = True, ffmpeg_on_path = True\<rparr>"

definition example_world :: world where
  "example_world =
     \<lparr>path_join = (\<lambda>a b. a @ ascii ''/'' @ b),
      path_exists = (\<lambda>p. True),
      startfile_opens = (\<lambda>p. False),
      import_error = None,
      tool_result = Inr [(''title'', ascii ''abc''), (''id'', ascii ''x1'')]\<rparr>"

definition example_env_no_ffmpeg :: env where
  "example_env_no_ffmpeg = example_env\<lparr>ffmpeg_on_path := False\<rparr>"

definition example_filled :: gui where
  "example_filled =
     run (init None)
       [EditUrl (ascii ''https://example.com/watch?v=abc''), EditDir (ascii ''/tmp/out'')]"

definition example_video :: gui where
  "example_video = step example_filled ClickToggle"

definition example_running :: gui where
  "example_running =
     run (init None)
       [EditUrl (ascii ''https://example.com/watch?v=abc''),
        EditDir (ascii ''/tmp/out''),
        ClickRun example_env]"

definition example_job :: job where
  "example_job =
     \<lparr>job_url = ascii ''https://example.com/watch?v=abc'', job_dir = ascii ''/tmp/out'',
      job_mp3 = True\<rparr>"

definition example_finally :: gui where
  "example_finally =
     run example_running
       [WorkerStart 0 example_world, ToolReturn 0 example_world,
        WorkerStep 0 example_world, WorkerStep 0 example_world]"

definition example_cleanup :: gui where
  "example_cleanup = run example_finally [WorkerStep 0 example_world, WorkerStep 0 example_world]"

section \<open>Basic facts\<close>

lemma py_or_nil [simp]: "py_or x [] = x"
  by (simp add: py_or_def)

lemma strip_nil [simp]: "strip [] = []"
  by (simp add: strip_def)

lemma strip_all_space:
  assumes "\<forall>c\<in>set u. isspace c"
  shows "strip u = []"
proof -
  from assms have d: "dropWhile isspace u = []"
    by simp
  show ?thesis
    unfolding strip_def d by simp
qed

lemma log_sel [simp]:
  "url_var (log l s) = url_var s"
  "save_dir_var (log l s) = save_dir_var s"
  "as_mp3_var (log l s) = as_mp3_var s"
  "is_downloading (log l s) = is_downloading s"
  "worker_thread (log l s) = worker_thread s"
  "run_btn (log l s) = run_btn s"
  "cancel_btn (log l s) = cancel_btn s"
  "log_text (log l s) = log_text s"
  "dialogs (log l s) = dialogs s"
  "opened (log l s) = opened s"
  "tool_calls (log l s) = tool_calls s"
  "threads (log l s) = threads s"
  by (simp_all add: log_def)

text \<open>A drain moves the whole queue, in order, to the end of the log pane.\<close>

lemma poll_log_queue_eq:
  "poll_log_queue s = s\<lparr>log_queue := [], log_text := log_text s @ log_queue s\<rparr>"
proof (induction s rule: poll_log_queue.induct)
  case (1 s)
  show ?case
  proof (cases "log_queue s")
    case Nil
    then show ?thesis
      by (subst poll_log_queue.simps) (simp add: poll_iter_def get_nowait_def)
  next
    case (Cons l q)
    then have "poll_iter s = Some (append_log_line l (s\<lparr>log_queue := q\<rparr>))"
      by (simp add: poll_iter_def get_nowait_def)
    with 1 Cons show ?thesis
      by (subst poll_log_queue.simps) (simp add: append_log_line_def)
  qed
qed

lemma init_eq:
  "init dl =
     \<lparr>url_var = [], save_dir_var = (case dl of None \<Rightarrow> [] | Some d \<Rightarrow> d), as_mp3_var = True,
      log_queue = [], is_downloading = False, worker_thread = None, run_btn = Normal,
      cancel_btn = Disabled, log_text = [LogReady], dialogs = [], opened = [],
      tool_calls = [], threads = []\<rparr>"
  by (simp add: init_def build_widgets_def log_def poll_log_queue_eq split: option.split)

lemma run_Nil: "run s [] = s"
  by (simp add: run_def)

lemma run_Cons: "run s (e # evs) = run (step s e) evs"
  by (simp add: run_def)

lemma run_snoc: "run s (evs @ [e]) = step (run s evs) e"
  by (simp add: run_def)

lemma run_append: "run s (evs @ evs') = run (run s evs) evs'"
  by (simp add: run_def)

text \<open>The tool's callbacks only put lines on the queue, or raise and do nothing.\<close>

lemma hook_cases:
  "(\<forall>s. callback_effect (Hook d) s = s) \<or> (\<exists>l. \<forall>s. callback_effect (Hook d) s = log l s)"
proof -
  let ?p = "case downloaded_bytes d of None \<Rightarrow> PyInt 0 | Some v \<Rightarrow> v"
  let ?total = "val_or (total_bytes d) (total_bytes_estimate d)"
  let ?speed = "val_or (speed d) (PyInt 0)"
  let ?ok = "truthy ?total \<and> as_float_error ?p = None \<and> as_float_error ?total = None \<and>
             as_float_error ?speed = None"
  consider (progress) "status d = Some (ascii ''downloading'')" "?ok"
    | (silent) "status d = Some (ascii ''downloading'')" "\<not> ?ok"
    | (finished) "status d \<noteq> Some (ascii ''downloading'')" "status d = Some (ascii ''finished'')"
    | (other) "status d \<noteq> Some (ascii ''downloading'')" "status d \<noteq> Some (ascii ''finished'')"
    by blast
  then show ?thesis
  proof cases
    case progress
    then have "\<forall>s. callback_effect (Hook d) s =
        log (LogProgress ?p ?total ?speed (val_or (eta d) (PyInt 0))) s"
      by (simp add: callback_effect_def hook_def Let_def)
    then show ?thesis by blast
  next
    case silent
    then have "\<forall>s. callback_effect (Hook d) s = s"
      by (auto simp: callback_effect_def hook_def Let_def split: option.split)
    then show ?thesis by blast
  next
    case finished
    then have "\<forall>s. callback_effect (Hook d) s = log LogConverting s"
      by (simp add: callback_effect_def hook_def)
    then show ?thesis by blast
  next
    case other
    then have "\<forall>s. callback_effect (Hook d) s = s"
      by (simp add: callback_effect_def hook_def)
    then show ?thesis by blast
  qed
qed

lemma callback_effect_lines:
  "\<exists>ls. \<forall>s. callback_effect cb s = s\<lparr>log_queue := log_queue s @ ls\<rparr>"
proof (cases cb)
  case (LoggerDebug msg)
  show ?thesis
  proof (cases "msg \<noteq> [] \<and> \<not> startswith msg (ascii ''[debug]'')")
    case True
    with LoggerDebug
    have "\<forall>s. callback_effect cb s = s\<lparr>log_queue := log_queue s @ [LogTool msg]\<rparr>"
      by (simp add: callback_effect_def logger_debug_def logger_emit_def log_def)
    then show ?thesis ..
  next
    case False
    with LoggerDebug have "\<forall>s. callback_effect cb s = s\<lparr>log_queue := log_queue s @ []\<rparr>"
      by (auto simp: callback_effect_def logger_debug_def)
    then show ?thesis ..
  qed
next
  case (LoggerWarning msg)
  then have "\<forall>s. callback_effect cb s = s\<lparr>log_queue := log_queue s @ [LogTool msg]\<rparr>"
    by (simp add: callback_effect_def logger_warning_def logger_emit_def log_def)
  then show ?thesis ..
next
  case (LoggerError msg)
  then have "\<forall>s. callback_effect cb s = s\<lparr>log_queue := log_queue s @ [LogTool msg]\<rparr>"
    by (simp add: callback_effect_def logger_error_def logger_emit_def log_def)
  then show ?thesis ..
next
  case (Hook d)
  from hook_cases [of d] show ?thesis
  proof
    assume "\<forall>s. callback_effect (Hook d) s = s"
    with Hook have "\<forall>s. callback_effect cb s = s\<lparr>log_queue := log_queue s @ []\<rparr>"
      by simp
    then show ?thesis ..
  next
    assume "\<exists>l. \<forall>s. callback_effect (Hook d) s = log l s"
    then obtain l where "\<forall>s. callback_effect (Hook d) s = log l s" ..
    with Hook have "\<forall>s. callback_effect cb s = s\<lparr>log_queue := log_queue s @ [l]\<rparr>"
      by (simp add: log_def)
    then show ?thesis ..
  qed
qed

lemma callbacks_lines:
  "\<exists>ls. \<forall>s. fold callback_effect cbs s = s\<lparr>log_queue := log_queue s @ ls\<rparr>"
proof (induction cbs)
  case Nil
  have "\<forall>s::gui. fold callback_effect [] s = s\<lparr>log_queue := log_queue s @ []\<rparr>"
    by simp
  then show ?case ..
next
  case (Cons cb cbs)
  from callback_effect_lines obtain l1
    where l1: "\<forall>s. callback_effect cb s = s\<lparr>log_queue := log_queue s @ l1\<rparr>" ..
  from Cons.IH obtain l2
    where l2: "\<forall>s. fold callback_effect cbs s = s\<lparr>log_queue := log_queue s @ l2\<rparr>" ..
  have "\<forall>s. fold callback_effect (cb # cbs) s = s\<lparr>log_queue := log_queue s @ (l1 @ l2)\<rparr>"
    by (simp add: l1 l2)
  then show ?case ..
qed

lemma callback_effect_frame [simp]:
  "threads (callback_effect cb s) = threads s"
  "is_downloading (callback_effect cb s) = is_downloading s"
  "run_btn (callback_effect cb s) = run_btn s"
  "cancel_btn (callback_effect cb s) = cancel_btn s"
  "tool_calls (callback_effect cb s) = tool_calls s"
  "log_text (callback_effect cb s) = log_text s"
proof -
  from callback_effect_lines obtain ls
    where "\<forall>s. callback_effect cb s = s\<lparr>log_queue := log_queue s @ ls\<rparr>" ..
  then show
    "threads (callback_effect cb s) = threads s"
    "is_downloading (callback_effect cb s) = is_downloading s"
    "run_btn (callback_effect cb s) = run_btn s"
    "cancel_btn (callback_effect cb s) = cancel_btn s"
    "tool_calls (callback_effect cb s) = tool_calls s"
    "log_text (callback_effect cb s) = log_text s"
    by simp_all
qed

text \<open>
  What a whole run of the worker does to a state: it appends lines to the queue, message
  boxes, opened paths and calls of the tool, and resets the flag and the buttons. It
  touches nothing else, and what it appends is the same on every state.
\<close>

lemma do_download_effect:
  "\<exists>ls ds ps cs. \<forall>s. do_download w cbs j s =
     s\<lparr>log_queue := log_queue s @ ls, is_downloading := False, run_btn := Normal,
       cancel_btn := Disabled, dialogs := dialogs s @ ds, opened := opened s @ ps,
       tool_calls := tool_calls s @ cs\<rparr>"
proof -
  from callbacks_lines obtain l0
    where l0: "\<forall>s. fold callback_effect cbs s = s\<lparr>log_queue := log_queue s @ l0\<rparr>" ..
  let ?call = "(job_url j, ydl_opts w (job_dir j) (job_mp3 j))"
  let ?base = "dict_get (projr (tool_result w)) ''title'' (ascii ''download'') @ ascii '' ['' @
               dict_get (projr (tool_result w)) ''id'' (ascii ''id'') @ ascii ''].'' @
               (if job_mp3 j then ascii ''mp3'' else ascii ''mp4'')"
  let ?path = "path_join w (job_dir j) ?base"
  let ?P = "\<lambda>ls ds ps cs. \<forall>s. do_download w cbs j s =
     s\<lparr>log_queue := log_queue s @ ls, is_downloading := False, run_btn := Normal,
       cancel_btn := Disabled, dialogs := dialogs s @ ds, opened := opened s @ ps,
       tool_calls := tool_calls s @ cs\<rparr>"
  consider
      (imp_exc) e where "import_error w = Some (Exception e)"
    | (imp_base) e where "import_error w = Some (BaseException e)"
    | (tool_exc) e where "import_error w = None" "tool_result w = Inl (Exception e)"
    | (tool_base) e where "import_error w = None" "tool_result w = Inl (BaseException e)"
    | (found) info where "import_error w = None" "tool_result w = Inr info"
        "path_exists w ?path"
    | (missing) info where "import_error w = None" "tool_result w = Inr info"
        "\<not> path_exists w ?path"
    by (cases "import_error w"; cases "tool_result w")
       (metis exn.exhaust option.distinct(1) option.sel sum.sel(2))+
  then show ?thesis
  proof cases
    case imp_exc
    then have "?P [LogError e, LogIdle] [ShowError ErrorTitle (DownloadFailed e)] [] []"
      by (simp add: do_download_def download_body_def except_block_def finally_block_def
          log_def Let_def)
    then show ?thesis by blast
  next
    case imp_base
    then have "?P [LogIdle] [] [] []"
      by (simp add: do_download_def download_body_def finally_block_def log_def Let_def)
    then show ?thesis by blast
  next
    case tool_exc
    then have "?P (l0 @ [LogError e, LogIdle]) [ShowError ErrorTitle (DownloadFailed e)] []
        [?call]"
      by (simp add: do_download_def download_body_def except_block_def finally_block_def
          log_def l0 Let_def)
    then show ?thesis by blast
  next
    case tool_base
    then have "?P (l0 @ [LogIdle]) [] [] [?call]"
      by (simp add: do_download_def download_body_def finally_block_def log_def l0 Let_def)
    then show ?thesis by blast
  next
    case found
    then have "?P (l0 @ [LogDone ?path, LogIdle]) []
        (if startfile_opens w ?path then [?path] else []) [?call]"
      by (simp add: do_download_def download_body_def finally_block_def startfile_def
          log_def l0 Let_def)
    then show ?thesis by blast
  next
    case missing
    then have "?P (l0 @ [LogDoneOpenFolder, LogIdle]) []
        (if startfile_opens w (job_dir j) then [job_dir j] else []) [?call]"
      by (simp add: do_download_def download_body_def finally_block_def startfile_def
          log_def l0 Let_def)
    then show ?thesis by blast
  qed
qed

lemma do_download_frame [simp]:
  "is_downloading (do_download w cbs j s) = False"
  "run_btn (do_download w cbs j s) = Normal"
  "cancel_btn (do_download w cbs j s) = Disabled"
  "threads (do_download w cbs j s) = threads s"
  "log_text (do_download w cbs j s) = log_text s"
  "url_var (do_download w cbs j s) = url_var s"
  "save_dir_var (do_download w cbs j s) = save_dir_var s"
  "as_mp3_var (do_download w cbs j s) = as_mp3_var s"
  "worker_thread (do_download w cbs j s) = worker_thread s"
proof -
  from do_download_effect obtain ls ds ps cs where "\<forall>s. do_download w cbs j s =
     s\<lparr>log_queue := log_queue s @ ls, is_downloading := False, run_btn := Normal,
       cancel_btn := Disabled, dialogs := dialogs s @ ds, opened := opened s @ ps,
       tool_calls := tool_calls s @ cs\<rparr>"
    by blast
  then show
    "is_downloading (do_download w cbs j s) = False"
    "run_btn (do_download w cbs j s) = Normal"
    "cancel_btn (do_download w cbs j s) = Disabled"
    "threads (do_download w cbs j s) = threads s"
    "log_text (do_download w cbs j s) = log_text s"
    "url_var (do_download w cbs j s) = url_var s"
    "save_dir_var (do_download w cbs j s) = save_dir_var s"
    "as_mp3_var (do_download w cbs j s) = as_mp3_var s"
    "worker_thread (do_download w cbs j s) = worker_thread s"
    by simp_all
qed

section \<open>The statements and the function\<close>

lemma exec_threads [simp]: "threads (exec w st s) = threads s"
  by (cases st) (simp_all add: startfile_def)

lemma fold_exec_threads [simp]: "threads (fold (exec w) sts s) = threads s"
  by (induction sts arbitrary: s) simp_all

lemma finally_stmts_block: "fold (exec w) finally_stmts s = finally_block s"
  by (simp add: finally_stmts_def finally_block_def Let_def)

lemma handler_stmts_block:
  "fold (exec w) (handler_stmts x) s =
     (case x of Exception e \<Rightarrow> except_block e s | BaseException e \<Rightarrow> s)"
  by (simp add: handler_stmts_def except_block_def Let_def split: exn.split)

text \<open>
  Executed one after the other with nothing in between, the statements of a worker are
  \<^verbatim>\<open>_do_download\<close>.
\<close>

lemma do_download_stmts:
  "do_download w cbs j s =
     (case import_error w of
        Some x \<Rightarrow> fold (exec w) (after_raise x) s
      | None \<Rightarrow>
          fold (exec w) (after_tool w j)
            (fold callback_effect cbs
               (s\<lparr>tool_calls := tool_calls s @
                    [(job_url j, ydl_opts w (job_dir j) (job_mp3 j))]\<rparr>)))"
  by (simp add: do_download_def download_body_def after_raise_def after_tool_def
      done_stmts_def finally_stmts_block handler_stmts_block Let_def
      split: option.split sum.split exn.split)

section \<open>A worker on its own\<close>

lemma exec_threads_upd: "exec w st (s\<lparr>threads := v\<rparr>) = (exec w st s)\<lparr>threads := v\<rparr>"
  by (cases st) (simp_all add: startfile_def log_def)

lemma fold_exec_threads_upd:
  "fold (exec w) sts (s\<lparr>threads := v\<rparr>) = (fold (exec w) sts s)\<lparr>threads := v\<rparr>"
  by (induction sts arbitrary: s) (simp_all add: exec_threads_upd)

lemma callback_effect_threads_upd:
  "callback_effect cb (s\<lparr>threads := v\<rparr>) = (callback_effect cb s)\<lparr>threads := v\<rparr>"
proof -
  from callback_effect_lines obtain ls
    where "\<forall>s. callback_effect cb s = s\<lparr>log_queue := log_queue s @ ls\<rparr>" ..
  then show ?thesis by simp
qed

lemma same_phase: "th_phase t = p \<Longrightarrow> t\<lparr>th_phase := p\<rparr> = t"
  by (cases t) simp

lemma remove_nth_update: "remove_nth i (xs[i := y]) = remove_nth i xs"
  by (simp add: remove_nth_def)

lemma run_replicate_Suc: "run s (replicate (Suc n) e) = step (run s (replicate n e)) e"
  by (metis replicate_Suc replicate_append_same run_snoc)

text \<open>The steps of a thread execute the statements it has left, in order.\<close>

lemma steps_run:
  assumes "i < length (threads s)" and "th_phase (threads s ! i) = After sts"
  shows "run s (replicate (length sts) (WorkerStep i w)) =
         (fold (exec w) sts s)
           \<lparr>threads := (threads s)[i := (threads s ! i)\<lparr>th_phase := After []\<rparr>]\<rparr>"
  using assms
proof (induction sts arbitrary: s)
  case Nil
  then have "(threads s ! i)\<lparr>th_phase := After []\<rparr> = threads s ! i"
    by (simp add: same_phase)
  then show ?case
    by (simp add: run_Nil)
next
  case (Cons st rest)
  let ?s1 = "(exec w st s)\<lparr>threads := (threads s)[i := (threads s ! i)\<lparr>th_phase := After rest\<rparr>]\<rparr>"
  from Cons.prems have st: "step s (WorkerStep i w) = ?s1"
    by (simp add: worker_step_def set_phase_def)
  from Cons.prems(1) have a: "i < length (threads ?s1)"
    and b: "th_phase (threads ?s1 ! i) = After rest"
    by simp_all
  have "run s (replicate (length (st # rest)) (WorkerStep i w)) =
        run ?s1 (replicate (length rest) (WorkerStep i w))"
    by (simp add: run_Cons st del: step.simps)
  with Cons.IH [OF a b] Cons.prems(1) show ?case
    by (simp add: fold_exec_threads_upd)
qed

lemma callbacks_run:
  assumes "i < length (threads s)" and "th_phase (threads s ! i) = InTool"
  shows "run s (map (ToolCallback i) cbs) = fold callback_effect cbs s"
  using assms
  by (induction cbs arbitrary: s) (simp_all add: run_Nil run_Cons)

text \<open>
  The events of one worker, from its start to its end with nothing in between, do to
  the state what \<^verbatim>\<open>_do_download\<close> does, and the thread is gone.
\<close>

lemma worker_alone:
  assumes "i < length (threads s)" and "threads s ! i = started j"
  shows "run s (worker_events i w cbs j) =
         (do_download w cbs j s)\<lparr>threads := remove_nth i (threads s)\<rparr>"
proof (cases "import_error w")
  case (Some x)
  let ?sts = "after_raise x"
  let ?s1 = "s\<lparr>threads := (threads s)[i := (threads s ! i)\<lparr>th_phase := After ?sts\<rparr>]\<rparr>"
  from assms Some have start: "step s (WorkerStart i w) = ?s1"
    by (simp add: worker_start_def set_phase_def started_def)
  from assms(1) have a: "i < length (threads ?s1)"
    and b: "th_phase (threads ?s1 ! i) = After ?sts"
    by simp_all
  let ?s2 = "run ?s1 (replicate (length ?sts) (WorkerStep i w))"
  from steps_run [OF a b, of w] assms(1)
  have s2: "?s2 = (fold (exec w) ?sts s)
      \<lparr>threads := (threads s)[i := (threads s ! i)\<lparr>th_phase := After []\<rparr>]\<rparr>"
    by (simp add: fold_exec_threads_upd)
  have "run s (worker_events i w cbs j) = step ?s2 (WorkerStep i w)"
    by (simp add: worker_events_def Some run_Cons start run_replicate_Suc
        del: replicate.simps step.simps)
  also have "\<dots> = (fold (exec w) ?sts s)\<lparr>threads := remove_nth i (threads s)\<rparr>"
    using assms(1) by (simp add: s2 worker_step_def remove_nth_update)
  also have "\<dots> = (do_download w cbs j s)\<lparr>threads := remove_nth i (threads s)\<rparr>"
    by (simp add: do_download_stmts Some)
  finally show ?thesis .
next
  case None
  let ?sts = "after_tool w j"
  let ?call = "(job_url j, ydl_opts w (job_dir j) (job_mp3 j))"
  let ?s1 = "s\<lparr>tool_calls := tool_calls s @ [?call],
               threads := (threads s)[i := (threads s ! i)\<lparr>th_phase := InTool\<rparr>]\<rparr>"
  from assms None have start: "step s (WorkerStart i w) = ?s1"
    by (simp add: worker_start_def set_phase_def started_def Let_def)
  from assms(1) have a1: "i < length (threads ?s1)"
    and b1: "th_phase (threads ?s1 ! i) = InTool"
    by simp_all
  let ?s2 = "fold callback_effect cbs ?s1"
  have cb: "run ?s1 (map (ToolCallback i) cbs) = ?s2"
    using a1 b1 by (rule callbacks_run)
  from callbacks_lines obtain l0
    where l0: "\<forall>s. fold callback_effect cbs s = s\<lparr>log_queue := log_queue s @ l0\<rparr>" ..
  let ?t = "fold callback_effect cbs (s\<lparr>tool_calls := tool_calls s @ [?call]\<rparr>)"
  have s2: "?s2 = ?t\<lparr>threads := (threads s)[i := (threads s ! i)\<lparr>th_phase := InTool\<rparr>]\<rparr>"
    by (simp add: l0)
  have tt: "threads ?t = threads s"
    by (simp add: l0)
  let ?s3 = "?t\<lparr>threads := (threads s)[i := (threads s ! i)\<lparr>th_phase := After ?sts\<rparr>]\<rparr>"
  from assms have ret: "step ?s2 (ToolReturn i w) = ?s3"
    by (simp add: l0 set_phase_def started_def)
  from assms(1) have a3: "i < length (threads ?s3)"
    and b3: "th_phase (threads ?s3 ! i) = After ?sts"
    by simp_all
  let ?s4 = "run ?s3 (replicate (length ?sts) (WorkerStep i w))"
  from steps_run [OF a3 b3, of w] assms(1)
  have s4: "?s4 = (fold (exec w) ?sts ?t)
      \<lparr>threads := (threads s)[i := (threads s ! i)\<lparr>th_phase := After []\<rparr>]\<rparr>"
    by (simp add: fold_exec_threads_upd)
  have "run s (worker_events i w cbs j) = step ?s4 (WorkerStep i w)"
    by (simp add: worker_events_def None run_Cons run_append start cb ret run_replicate_Suc
        del: replicate.simps step.simps)
  also have "\<dots> = (fold (exec w) ?sts ?t)\<lparr>threads := remove_nth i (threads s)\<rparr>"
    using assms(1) by (simp add: s4 worker_step_def remove_nth_update)
  also have "\<dots> = (do_download w cbs j s)\<lparr>threads := remove_nth i (threads s)\<rparr>"
    by (simp add: do_download_stmts None)
  finally show ?thesis .
qed

section \<open>The run button, the flag and the threads along a run\<close>

lemma count_update:
  "i < length xs \<Longrightarrow>
   length (filter P (xs[i := y])) + (if P (xs ! i) then 1 else 0) =
   length (filter P xs) + (if P y then 1 else 0)"
proof (induction xs arbitrary: i)
  case Nil
  then show ?case by simp
next
  case (Cons x xs)
  show ?case
  proof (cases i)
    case 0
    then show ?thesis by simp
  next
    case (Suc k)
    with Cons.prems have "k < length xs" by simp
    from Cons.IH [OF this] Suc show ?thesis
      by simp
  qed
qed

lemma count_remove:
  "i < length xs \<Longrightarrow>
   length (filter P (remove_nth i xs)) + (if P (xs ! i) then 1 else 0) = length (filter P xs)"
proof (induction xs arbitrary: i)
  case Nil
  then show ?case by simp
next
  case (Cons x xs)
  show ?case
  proof (cases i)
    case 0
    then show ?thesis by (simp add: remove_nth_def)
  next
    case (Suc k)
    with Cons.prems have "k < length xs" by simp
    from Cons.IH [OF this] Suc show ?thesis
      by (simp add: remove_nth_def)
  qed
qed

lemma list_all_update: "list_all Q xs \<Longrightarrow> Q y \<Longrightarrow> list_all Q (xs[i := y])"
  using set_update_subset_insert [of xs i y] by (auto simp: list_all_iff)

lemma list_all_remove: "list_all Q xs \<Longrightarrow> list_all Q (remove_nth i xs)"
  by (auto simp: remove_nth_def list_all_iff dest: in_set_takeD in_set_dropD)

lemma list_ex_update: "list_ex R (xs[i := y]) \<Longrightarrow> R y \<or> list_ex R xs"
  using set_update_subset_insert [of xs i y] by (auto simp: list_ex_iff)

lemma list_ex_remove: "list_ex R (remove_nth i xs) \<Longrightarrow> list_ex R xs"
  by (auto simp: remove_nth_def list_ex_iff dest: in_set_takeD in_set_dropD)

lemma list_ex_nth: "i < length xs \<Longrightarrow> R (xs ! i) \<Longrightarrow> list_ex R xs"
  by (auto simp: list_ex_iff)

lemma consistent_count:
  "consistent s \<longleftrightarrow>
     list_all well_formed (threads s) \<and>
     length (filter at_work (threads s)) \<le> 1 \<and>
     (run_btn s = Normal \<longleftrightarrow> length (filter at_work (threads s)) = 0) \<and>
     (run_btn s = Normal \<or> list_ex (\<lambda>t. at_work t \<and> \<not> holds_flag t) (threads s)
        \<longrightarrow> \<not> is_downloading s)"
  by (simp add: consistent_def)

lemma consistent_init: "consistent (init dl)"
  by (simp add: consistent_def init_eq)

text \<open>
  A thread that moves on without executing line 338 keeps the state consistent, when
  the run button is left alone and the flag is not set.
\<close>

lemma consistent_move:
  assumes c: "consistent s" and i: "i < length (threads s)"
    and th: "threads s' = (threads s)[i := t']"
    and wf: "well_formed t'"
    and aw: "at_work t' = at_work (threads s ! i)"
    and hf: "at_work t' \<and> \<not> holds_flag t' \<longrightarrow>
               \<not> is_downloading s' \<or> (at_work (threads s ! i) \<and> \<not> holds_flag (threads s ! i))"
    and rb: "run_btn s' = run_btn s"
    and fl: "is_downloading s' \<longrightarrow> is_downloading s"
  shows "consistent s'"
proof -
  let ?R = "\<lambda>t. at_work t \<and> \<not> holds_flag t"
  from count_update [OF i, of at_work t'] aw
  have n: "length (filter at_work (threads s')) = length (filter at_work (threads s))"
    by (simp add: th)
  from c wf have 1: "list_all well_formed (threads s')"
    by (simp add: th consistent_count list_all_update)
  have 4: "\<not> is_downloading s'"
    if p: "run_btn s' = Normal \<or> list_ex ?R (threads s')"
  proof (rule ccontr)
    assume "\<not> \<not> is_downloading s'"
    then have d': "is_downloading s'" by simp
    with fl have d: "is_downloading s" by simp
    from p consider "run_btn s = Normal" | "?R t'" | "list_ex ?R (threads s)"
      using list_ex_update [of ?R "threads s" i t'] by (auto simp: th rb)
    then have "run_btn s = Normal \<or> list_ex ?R (threads s)"
    proof cases
      case 2
      with hf d' have "?R (threads s ! i)" by blast
      with i show ?thesis by (simp add: list_ex_nth)
    qed simp_all
    with c d show False
      by (simp add: consistent_count)
  qed
  from c 1 n 4 show ?thesis
    by (auto simp: consistent_count rb)
qed

lemma well_formed_after: "list_all plain pre \<Longrightarrow>
    well_formed \<lparr>th_job = j, th_phase = After (pre @ finally_stmts)\<rparr>"
  by (auto simp: well_formed_def)

lemma plain_handler: "list_all plain (handler_stmts x)"
  by (simp add: handler_stmts_def split: exn.split)

lemma plain_done: "list_all plain (done_stmts w j info)"
  by (simp add: done_stmts_def Let_def)

lemma at_work_finally [simp]:
  "at_work (t\<lparr>th_phase := After (pre @ finally_stmts)\<rparr>)"
  "holds_flag (t\<lparr>th_phase := After (pre @ finally_stmts)\<rparr>)"
  by (simp_all add: at_work_def holds_flag_def finally_stmts_def)

lemma well_formed_upd:
  "list_all plain pre \<Longrightarrow> well_formed (t\<lparr>th_phase := After (pre @ finally_stmts)\<rparr>)"
  by (auto simp: well_formed_def)

lemma consistent_worker_start:
  assumes "consistent s" and "i < length (threads s)" and "th_phase (threads s ! i) = Starting"
  shows "consistent (worker_start i w s)"
proof (cases "import_error w")
  case None
  show ?thesis
    by (rule consistent_move [where s = s and i = i
          and t' = "(threads s ! i)\<lparr>th_phase := InTool\<rparr>"])
       (use assms None in \<open>simp_all add: worker_start_def set_phase_def Let_def
          well_formed_def at_work_def holds_flag_def\<close>)
next
  case (Some x)
  show ?thesis
    by (rule consistent_move [where s = s and i = i
          and t' = "(threads s ! i)\<lparr>th_phase := After (after_raise x)\<rparr>"])
       (use assms Some in \<open>simp_all add: worker_start_def set_phase_def Let_def
          after_raise_def well_formed_upd plain_handler\<close>,
        use assms in \<open>simp add: at_work_def\<close>)
qed

lemma consistent_tool_return:
  assumes "consistent s" and "i < length (threads s)" and "th_phase (threads s ! i) = InTool"
  shows "consistent (set_phase i (After (after_tool w (th_job (threads s ! i)))) s)"
proof -
  obtain pre where pre: "after_tool w (th_job (threads s ! i)) = pre @ finally_stmts"
    "list_all plain pre"
    by (cases "tool_result w")
       (simp_all add: after_tool_def after_raise_def plain_handler plain_done)
  show ?thesis
    by (rule consistent_move [where s = s and i = i
          and t' = "(threads s ! i)\<lparr>th_phase := After (pre @ finally_stmts)\<rparr>"])
       (use assms in \<open>simp_all add: set_phase_def pre well_formed_upd\<close>,
        use assms in \<open>simp add: at_work_def\<close>)
qed

lemma consistent_frame:
  assumes "consistent s" and "threads s' = threads s" and "run_btn s' = run_btn s"
    and "is_downloading s' \<longrightarrow> is_downloading s"
  shows "consistent s'"
  using assms by (auto simp: consistent_def)

lemma exec_plain_frame:
  "plain st \<Longrightarrow> run_btn (exec w st s) = run_btn s"
  "plain st \<Longrightarrow> is_downloading (exec w st s) = is_downloading s"
  "plain st \<Longrightarrow> cancel_btn (exec w st s) = cancel_btn s"
  by (cases st; simp add: startfile_def)+

lemma filter_empty_count: "filter P xs = [] \<longleftrightarrow> length (filter P xs) = 0"
  by simp

lemma consistent_worker_step:
  assumes c: "consistent s" and i: "i < length (threads s)"
  shows "consistent (worker_step i w s)"
proof (cases "th_phase (threads s ! i)")
  case Starting
  with c show ?thesis by (simp add: worker_step_def)
next
  case InTool
  with c show ?thesis by (simp add: worker_step_def)
next
  case (After sts)
  let ?t = "threads s ! i"
  from c i have wf: "well_formed ?t"
    by (simp add: consistent_def list_all_length)
  show ?thesis
  proof (cases sts)
    case Nil
    with After have s': "worker_step i w s = s\<lparr>threads := remove_nth i (threads s)\<rparr>"
      by (simp add: worker_step_def)
    from After Nil have na: "\<not> at_work ?t"
      by (simp add: at_work_def)
    from count_remove [OF i, of at_work] na
    have n: "length (filter at_work (remove_nth i (threads s))) =
             length (filter at_work (threads s))"
      by simp
    from c have "list_all well_formed (remove_nth i (threads s))"
      by (simp add: consistent_count list_all_remove)
    moreover have "list_ex (\<lambda>t. at_work t \<and> \<not> holds_flag t) (remove_nth i (threads s)) \<Longrightarrow>
        list_ex (\<lambda>t. at_work t \<and> \<not> holds_flag t) (threads s)"
      by (rule list_ex_remove)
    ultimately show ?thesis
      using c n unfolding s' consistent_count by auto
  next
    case (Cons st rest)
    with After have s': "worker_step i w s = set_phase i (After rest) (exec w st s)"
      by (simp add: worker_step_def)
    have th: "threads (worker_step i w s) = (threads s)[i := ?t\<lparr>th_phase := After rest\<rparr>]"
      by (simp add: s' set_phase_def)
    from wf After Cons consider
        (body) pre where "st # rest = pre @ finally_stmts" "list_all plain pre"
      | (l338) "st = EnableRun" "rest = [DisableCancel, PutLog LogIdle]"
      | (l339) "st = DisableCancel" "rest = [PutLog LogIdle]"
      | (l340) "st = PutLog LogIdle" "rest = []"
      by (auto simp: well_formed_def)
    then show ?thesis
    proof cases
      case body
      show ?thesis
      proof (cases pre)
        case Nil
        with body have st: "st = ClearFlag" "rest = [EnableRun, DisableCancel, PutLog LogIdle]"
          by (simp_all add: finally_stmts_def)
        show ?thesis
          by (rule consistent_move [OF c i th])
             (use After Cons st in \<open>simp_all add: s' set_phase_def well_formed_def at_work_def\<close>)
      next
        case (Cons x pre')
        with body have st: "st = x" "rest = pre' @ finally_stmts" "plain x" "list_all plain pre'"
          by simp_all
        show ?thesis
          by (rule consistent_move [OF c i th])
             (use After \<open>sts = st # rest\<close> st in
               \<open>simp_all add: s' set_phase_def well_formed_upd exec_plain_frame\<close>,
              simp add: at_work_def finally_stmts_def)
      qed
    next
      case l338
      let ?R = "\<lambda>t. at_work t \<and> \<not> holds_flag t"
      from After Cons l338 have old: "at_work ?t" "\<not> holds_flag ?t"
        by (simp_all add: at_work_def holds_flag_def)
      with i have ex: "list_ex ?R (threads s)"
        by (simp add: list_ex_nth)
      with c have nd: "\<not> is_downloading s"
        by (simp add: consistent_count)
      have new: "\<not> at_work (?t\<lparr>th_phase := After rest\<rparr>)"
        by (simp add: at_work_def l338)
      from count_update [OF i, of at_work "?t\<lparr>th_phase := After rest\<rparr>"] old new
      have n: "Suc (length (filter at_work (threads (worker_step i w s)))) =
               length (filter at_work (threads s))"
        by (simp add: th)
      from c have "length (filter at_work (threads s)) \<le> 1"
        by (simp add: consistent_count)
      with n have n0: "length (filter at_work (threads (worker_step i w s))) = 0"
        by arith
      from c have 1: "list_all well_formed (threads (worker_step i w s))"
        unfolding th by (simp add: consistent_count list_all_update well_formed_def l338)
      have rb: "run_btn (worker_step i w s) = Normal"
        and fl: "is_downloading (worker_step i w s) = is_downloading s"
        by (simp_all add: s' set_phase_def l338)
      from 1 n0 rb fl nd show ?thesis
        unfolding consistent_count by simp
    next
      case l339
      show ?thesis
        by (rule consistent_move [OF c i th])
           (use After Cons l339 in
             \<open>simp_all add: s' set_phase_def well_formed_def at_work_def\<close>)
    next
      case l340
      show ?thesis
        by (rule consistent_move [OF c i th])
           (use After Cons l340 in
             \<open>simp_all add: s' set_phase_def well_formed_def at_work_def\<close>)
    qed
  qed
qed

lemma on_run_clicked_cases:
  "on_run_clicked e s =
     (if is_downloading s then s
      else if strip (url_var s) = [] then
        s\<lparr>dialogs := dialogs s @ [ShowWarning InputMissing EnterUrl]\<rparr>
      else if strip (save_dir_var s) = [] \<or> \<not> isdir e (strip (save_dir_var s)) then
        s\<lparr>dialogs := dialogs s @ [ShowWarning InputMissing SpecifySaveDir]\<rparr>
      else if \<not> ytdlp_importable e then
        s\<lparr>dialogs := dialogs s @ [ShowError ErrorTitle YtdlpNotFound]\<rparr>
      else if \<not> ffmpeg_on_path e then
        s\<lparr>dialogs := dialogs s @ [ShowError ErrorTitle FfmpegNotFound]\<rparr>
      else
        s\<lparr>is_downloading := True, run_btn := Disabled, cancel_btn := Normal,
          log_queue := log_queue s @ [LogStart], worker_thread := Some (request s),
          threads := threads s @ [started (request s)]\<rparr>)"
  by (simp add: on_run_clicked_def Let_def log_def request_def started_def)

lemma consistent_on_run_clicked:
  assumes c: "consistent s" and n: "run_btn s = Normal"
  shows "consistent (on_run_clicked e s)"
proof (cases "valid_submission e s \<and> \<not> is_downloading s")
  case False
  show ?thesis
    by (rule consistent_frame [OF c])
       (use False in \<open>auto simp: on_run_clicked_cases valid_submission_def\<close>)
next
  case True
  then have s': "on_run_clicked e s =
      s\<lparr>is_downloading := True, run_btn := Disabled, cancel_btn := Normal,
        log_queue := log_queue s @ [LogStart], worker_thread := Some (request s),
        threads := threads s @ [started (request s)]\<rparr>"
    by (simp add: on_run_clicked_cases valid_submission_def)
  from c n have none: "filter at_work (threads s) = []"
    by (simp add: consistent_def)
  then have nex: "\<not> list_ex (\<lambda>t. at_work t \<and> \<not> holds_flag t) (threads s)"
    by (auto simp: list_ex_iff filter_empty_conv)
  have st: "well_formed (started j)" "at_work (started j)" "holds_flag (started j)" for j
    by (simp_all add: well_formed_def at_work_def holds_flag_def started_def)
  from c none nex show ?thesis
    unfolding s' consistent_def by (simp add: st)
qed

lemma consistent_step: "consistent s \<Longrightarrow> consistent (step s ev)"
proof (cases ev)
  case (ClickRun e)
  assume "consistent s"
  then show ?thesis
    by (simp add: ClickRun consistent_on_run_clicked)
next
  case ClickCancel
  assume c: "consistent s"
  show ?thesis
    by (rule consistent_frame [OF c]) (simp_all add: ClickCancel on_cancel_clicked_def)
next
  case (WorkerStart i w)
  assume "consistent s"
  then show ?thesis
    by (simp add: WorkerStart consistent_worker_start)
next
  case (ToolCallback i cb)
  assume c: "consistent s"
  show ?thesis
    by (rule consistent_frame [OF c]) (simp_all add: ToolCallback)
next
  case (ToolReturn i w)
  assume "consistent s"
  then show ?thesis
    by (simp add: ToolReturn consistent_tool_return)
next
  case (WorkerStep i w)
  assume "consistent s"
  then show ?thesis
    by (simp add: WorkerStep consistent_worker_step)
next
  case (EditUrl t)
  assume c: "consistent s"
  show ?thesis
    by (rule consistent_frame [OF c]) (simp_all add: EditUrl)
next
  case (EditDir t)
  assume c: "consistent s"
  show ?thesis
    by (rule consistent_frame [OF c]) (simp_all add: EditDir)
next
  case (ClickPaste clip)
  assume c: "consistent s"
  show ?thesis
    by (rule consistent_frame [OF c])
       (simp_all add: ClickPaste paste_from_clipboard_def split: option.split)
next
  case (ChooseDir d)
  assume c: "consistent s"
  show ?thesis
    by (rule consistent_frame [OF c]) (simp_all add: ChooseDir choose_dir_def)
next
  case ClickToggle
  assume c: "consistent s"
  show ?thesis
    by (rule consistent_frame [OF c])
       (simp_all add: ClickToggle toggle_def on_toggle_changed_def)
next
  case PollTick
  assume c: "consistent s"
  show ?thesis
    by (rule consistent_frame [OF c]) (simp_all add: PollTick poll_log_queue_eq)
qed

lemma consistent_run: "consistent s \<Longrightarrow> consistent (run s evs)"
  by (induction evs arbitrary: s) (simp_all add: run_Nil run_Cons consistent_step)

lemma consistent_idle: "consistent s \<Longrightarrow> run_btn s = Normal \<Longrightarrow> \<not> is_downloading s"
  by (simp add: consistent_def)

lemma reachable_consistent: "consistent (run (init dl) evs)"
  by (rule consistent_run [OF consistent_init])

text \<open>The concrete inputs, evaluated.\<close>

lemma strip_example_url [simp]:
  "strip (ascii ''https://example.com/watch?v=abc'') = ascii ''https://example.com/watch?v=abc''"
  by (simp add: strip_def isspace_def ascii_def)

lemma strip_example_dir [simp]: "strip (ascii ''/tmp/out'') = ascii ''/tmp/out''"
  by (simp add: strip_def isspace_def ascii_def)

lemma ascii_nonempty [simp]: "ascii (c # cs) \<noteq> []"
  by (simp add: ascii_def)

lemma example_filled_eq:
  "example_filled =
     \<lparr>url_var = ascii ''https://example.com/watch?v=abc'', save_dir_var = ascii ''/tmp/out'',
      as_mp3_var = True, log_queue = [], is_downloading = False, worker_thread = None,
      run_btn = Normal, cancel_btn = Disabled, log_text = [LogReady], dialogs = [],
      opened = [], tool_calls = [], threads = []\<rparr>"
  by (simp add: example_filled_def run_def init_eq)

lemma example_video_eq:
  "example_video = example_filled\<lparr>as_mp3_var := False, log_queue := [LogToggled False]\<rparr>"
  by (simp add: example_video_def example_filled_eq toggle_def on_toggle_changed_def log_def)

lemma example_running_eq:
  "example_running =
     \<lparr>url_var = ascii ''https://example.com/watch?v=abc'', save_dir_var = ascii ''/tmp/out'',
      as_mp3_var = True, log_queue = [LogStart], is_downloading = True,
      worker_thread = Some \<lparr>job_url = ascii ''https://example.com/watch?v=abc'',
                             job_dir = ascii ''/tmp/out'', job_mp3 = True\<rparr>,
      run_btn = Disabled, cancel_btn = Normal, log_text = [LogReady], dialogs = [],
      opened = [], tool_calls = [],
      threads = [\<lparr>th_job = \<lparr>job_url = ascii ''https://example.com/watch?v=abc'',
                              job_dir = ascii ''/tmp/out'', job_mp3 = True\<rparr>,
                  th_phase = Starting\<rparr>]\<rparr>"
  by (simp add: example_running_def run_def init_eq on_run_clicked_def example_env_def
      log_def Let_def)

lemma example_running_submit: "example_running = on_run_clicked example_env example_filled"
  by (simp add: example_running_eq example_filled_eq on_run_clicked_def example_env_def
      log_def Let_def)

lemma example_running_thread:
  "0 < length (threads example_running) \<and> threads example_running ! 0 = started example_job"
  by (simp add: example_running_eq started_def example_job_def)

lemma request_example: "request example_filled = example_job"
  by (simp add: request_def example_filled_eq example_job_def)

text \<open>
  The scenario of the specification: URL \<^verbatim>\<open>https://example.com/watch?v=abc\<close>, folder
  \<^verbatim>\<open>/tmp/out\<close>, format AUDIO, both tools present. The worker runs, the state goes
  from RUNNING back to IDLE, and the log ends with the completion line of a path under
  the folder that ends in \<^verbatim>\<open>.mp3\<close>.
\<close>

lemma example_scenario:
  "is_downloading example_running \<and>
   \<not> is_downloading
       (run example_running (worker_events 0 example_world [] example_job @ [PollTick])) \<and>
   threads (run example_running (worker_events 0 example_world [] example_job @ [PollTick])) =
     [] \<and>
   log_text (run example_running (worker_events 0 example_world [] example_job @ [PollTick])) =
     [LogReady, LogStart, LogDone (ascii ''/tmp/out/abc [x1].mp3''), LogIdle]"
proof -
  from example_running_thread
  have "run example_running (worker_events 0 example_world [] example_job) =
        (do_download example_world [] example_job example_running)
          \<lparr>threads := remove_nth 0 (threads example_running)\<rparr>"
    by (intro worker_alone) simp_all
  then show ?thesis
    by (simp add: run_append run_Cons run_Nil)
       (simp add: example_running_eq poll_log_queue_eq do_download_def
         download_body_def finally_block_def startfile_def log_def example_world_def
         example_job_def dict_get_def remove_nth_def ascii_def Let_def)
qed

section \<open>The worker's cleanup\<close>

text \<open>
  Claim C2. Whatever the worker met (the import failed, the tool raised an exception
  that the handler catches or one that it does not, or the tool returned; with any
  callbacks before), \<^verbatim>\<open>_do_download\<close> ends with the flag cleared (state IDLE), the
  run button enabled and the cancel button disabled. The same holds in a run for the
  events of worker \<open>i\<close> from its start to its end, statement by statement, after which
  the thread is no longer alive. And in every state of a run, whatever the interface and
  other workers did in between, every thread past the tool has the \<^verbatim>\<open>finally\<close> block,
  or what is left of it, as its last statements: it does not end without them.
\<close>

theorem worker_always_restores_idle:
  "\<not> is_downloading (do_download w cbs j s) \<and>
   run_btn (do_download w cbs j s) = Normal \<and>
   cancel_btn (do_download w cbs j s) = Disabled \<and>
   (i < length (threads s) \<and> threads s ! i = started j \<longrightarrow>
      \<not> is_downloading (run s (worker_events i w cbs j)) \<and>
      run_btn (run s (worker_events i w cbs j)) = Normal \<and>
      cancel_btn (run s (worker_events i w cbs j)) = Disabled \<and>
      threads (run s (worker_events i w cbs j)) = remove_nth i (threads s)) \<and>
   list_all well_formed (threads (run (init dl) evs))"
  using reachable_consistent [of dl evs] by (simp add: worker_alone consistent_def)

theorem worker_always_restores_idle_witness:
  "0 < length (threads example_running) \<and>
   threads example_running ! 0 = started example_job \<and>
   is_downloading example_running \<and>
   \<not> is_downloading (run example_running (worker_events 0 example_world [] example_job)) \<and>
   run_btn (run example_running (worker_events 0 example_world [] example_job)) = Normal \<and>
   cancel_btn (run example_running (worker_events 0 example_world [] example_job)) = Disabled \<and>
   threads (run example_running (worker_events 0 example_world [] example_job)) = []"
proof -
  have h: "0 < length (threads example_running) \<and>
           threads example_running ! 0 = started example_job"
    by (rule example_running_thread)
  have r: "is_downloading example_running"
    by (simp add: example_running_eq)
  have e: "remove_nth 0 (threads example_running) = []"
    by (simp add: example_running_eq remove_nth_def)
  note th = worker_always_restores_idle [where w = example_world and cbs = "[]"
      and j = example_job and s = example_running and i = 0,
      THEN conjunct2, THEN conjunct2, THEN conjunct2, THEN conjunct1, rule_format, OF h]
  from th e have t:
    "\<not> is_downloading (run example_running (worker_events 0 example_world [] example_job))"
    "run_btn (run example_running (worker_events 0 example_world [] example_job)) = Normal"
    "cancel_btn (run example_running (worker_events 0 example_world [] example_job)) = Disabled"
    "threads (run example_running (worker_events 0 example_world [] example_job)) = []"
    by simp_all
  from h r t show ?thesis
    by (intro conjI) simp_all
qed

section \<open>Submission\<close>

text \<open>
  In a run, a click on the run button reaches the handler only in state IDLE: whenever
  the button is enabled the flag is clear and no worker is at work.
\<close>

lemma dispatched_click_is_idle:
  "run_btn (run (init dl) evs) = Normal \<Longrightarrow>
   \<not> is_downloading (run (init dl) evs) \<and>
   filter at_work (threads (run (init dl) evs)) = [] \<and>
   step (run (init dl) evs) (ClickRun e) = on_run_clicked e (run (init dl) evs)"
  using reachable_consistent [of dl evs] by (simp add: consistent_def)

text \<open>
  Claim C3. A submission is taken in state IDLE: in a run the handler is reached only
  with the flag clear (while a job runs the button is disabled and the handler would
  return at once, see C1). Such a submission, when its URL is empty or its folder is empty
  or not an existing directory, shows a warning titled "input missing" and changes
  nothing else: no worker is started and the state stays IDLE. When it is valid (URL and
  folder pass, both tools present) it sets the flag, disables the run button, enables
  the cancel button, logs the start and starts one worker with the request. URL and
  folder are the texts of the request, that is, the fields as stripped at lines 212 and
  213.
\<close>

theorem submit_contract:
  "(run_btn (run (init dl) evs) = Normal \<longrightarrow>
      \<not> is_downloading (run (init dl) evs) \<and>
      step (run (init dl) evs) (ClickRun e) = on_run_clicked e (run (init dl) evs)) \<and>
   (\<not> is_downloading s \<longrightarrow>
      (strip (url_var s) = [] \<or> strip (save_dir_var s) = [] \<or>
       \<not> isdir e (strip (save_dir_var s)) \<longrightarrow>
         on_run_clicked e s =
           s\<lparr>dialogs := dialogs s @
              [ShowWarning InputMissing
                 (if strip (url_var s) = [] then EnterUrl else SpecifySaveDir)]\<rparr> \<and>
         threads (on_run_clicked e s) = threads s \<and>
         \<not> is_downloading (on_run_clicked e s)) \<and>
      (valid_submission e s \<longrightarrow>
         on_run_clicked e s =
           s\<lparr>log_queue := log_queue s @ [LogStart], is_downloading := True,
             worker_thread := Some (request s), run_btn := Disabled, cancel_btn := Normal,
             threads := threads s @ [started (request s)]\<rparr>))"
proof -
  have 1: "run_btn (run (init dl) evs) = Normal \<longrightarrow>
      \<not> is_downloading (run (init dl) evs) \<and>
      step (run (init dl) evs) (ClickRun e) = on_run_clicked e (run (init dl) evs)"
    using dispatched_click_is_idle [of dl evs e] by simp
  have 2: "\<not> is_downloading s \<longrightarrow>
      (strip (url_var s) = [] \<or> strip (save_dir_var s) = [] \<or>
       \<not> isdir e (strip (save_dir_var s)) \<longrightarrow>
         on_run_clicked e s =
           s\<lparr>dialogs := dialogs s @
              [ShowWarning InputMissing
                 (if strip (url_var s) = [] then EnterUrl else SpecifySaveDir)]\<rparr> \<and>
         threads (on_run_clicked e s) = threads s \<and>
         \<not> is_downloading (on_run_clicked e s)) \<and>
      (valid_submission e s \<longrightarrow>
         on_run_clicked e s =
           s\<lparr>log_queue := log_queue s @ [LogStart], is_downloading := True,
             worker_thread := Some (request s), run_btn := Disabled, cancel_btn := Normal,
             threads := threads s @ [started (request s)]\<rparr>)"
    by (auto simp: on_run_clicked_cases valid_submission_def)
  from 1 2 show ?thesis
    by (rule conjI)
qed

theorem submit_contract_witness:
  "run_btn (run (init None) []) = Normal \<and>
   step (run (init None) []) (ClickRun example_env) =
     on_run_clicked example_env (run (init None) []) \<and>
   \<not> is_downloading (init None) \<and> strip (url_var (init None)) = [] \<and>
   on_run_clicked example_env (init None) =
     (init None)\<lparr>dialogs := [ShowWarning InputMissing EnterUrl]\<rparr> \<and>
   threads (on_run_clicked example_env (init None)) = [] \<and>
   \<not> is_downloading example_filled \<and> valid_submission example_env example_filled \<and>
   on_run_clicked example_env example_filled =
     example_filled\<lparr>log_queue := [LogStart], is_downloading := True,
       worker_thread := Some (request example_filled), run_btn := Disabled,
       cancel_btn := Normal, threads := [started (request example_filled)]\<rparr>"
proof -
  have n: "run_btn (run (init None) []) = Normal"
    by (simp add: run_Nil init_eq)
  have a: "\<not> is_downloading (init None)" and b: "strip (url_var (init None)) = []"
    by (simp_all add: init_eq)
  have c: "\<not> is_downloading example_filled"
    by (simp add: example_filled_eq)
  have d: "valid_submission example_env example_filled"
    by (simp add: example_filled_eq valid_submission_def example_env_def)
  note th1 = submit_contract [where dl = None and evs = "[]" and e = example_env,
      THEN conjunct1, rule_format, OF n]
  note th2 = submit_contract [where e = example_env and s = "init None",
      THEN conjunct2, rule_format, OF a, THEN conjunct1, rule_format, OF disjI1, OF b]
  note th3 = submit_contract [where e = example_env and s = example_filled,
      THEN conjunct2, rule_format, OF c, THEN conjunct2, rule_format, OF d]
  from th1 have s: "step (run (init None) []) (ClickRun example_env) =
     on_run_clicked example_env (run (init None) [])"
    by (rule conjunct2)
  from th2 b have w: "on_run_clicked example_env (init None) =
     (init None)\<lparr>dialogs := [ShowWarning InputMissing EnterUrl]\<rparr>"
    by (simp add: init_eq)
  from th2 have t: "threads (on_run_clicked example_env (init None)) = []"
    by (simp add: init_eq)
  from th3 have r: "on_run_clicked example_env example_filled =
     example_filled\<lparr>log_queue := [LogStart], is_downloading := True,
       worker_thread := Some (request example_filled), run_btn := Disabled,
       cancel_btn := Normal, threads := [started (request example_filled)]\<rparr>"
    by (simp add: example_filled_eq)
  from n s a b w t c d r show ?thesis
    by (intro conjI)
qed

text \<open>
  Claim C8. The fields are stripped before they are checked: for a submission (taken in
  state IDLE, as every submission of a run is) a URL made of whitespace only gives exactly
  the result of an empty URL (the warning that asks for a URL, no worker, state IDLE), and
  a folder made of whitespace only gives exactly the result of an empty folder (a
  warning, no worker, state IDLE).
\<close>

theorem whitespace_only_rejected:
  assumes "\<not> is_downloading s" and "\<forall>c\<in>set u. isspace c"
  shows
    "on_run_clicked e (s\<lparr>url_var := u\<rparr>) =
       (on_run_clicked e (s\<lparr>url_var := []\<rparr>))\<lparr>url_var := u\<rparr> \<and>
     on_run_clicked e (s\<lparr>url_var := u\<rparr>) =
       s\<lparr>url_var := u, dialogs := dialogs s @ [ShowWarning InputMissing EnterUrl]\<rparr> \<and>
     on_run_clicked e (s\<lparr>save_dir_var := u\<rparr>) =
       (on_run_clicked e (s\<lparr>save_dir_var := []\<rparr>))\<lparr>save_dir_var := u\<rparr> \<and>
     on_run_clicked e (s\<lparr>save_dir_var := u\<rparr>) =
       s\<lparr>save_dir_var := u, dialogs := dialogs s @
          [ShowWarning InputMissing
             (if strip (url_var s) = [] then EnterUrl else SpecifySaveDir)]\<rparr>"
proof -
  from assms(2) have "strip u = []"
    by (rule strip_all_space)
  with assms(1) show ?thesis
    by (simp add: on_run_clicked_def Let_def)
qed

theorem whitespace_only_rejected_witness:
  "\<not> is_downloading example_filled \<and>
   on_run_clicked example_env (example_filled\<lparr>url_var := [32, 9, 12288]\<rparr>) =
     example_filled\<lparr>url_var := [32, 9, 12288],
       dialogs := [ShowWarning InputMissing EnterUrl]\<rparr> \<and>
   on_run_clicked example_env (example_filled\<lparr>save_dir_var := [32, 9, 12288]\<rparr>) =
     example_filled\<lparr>save_dir_var := [32, 9, 12288],
       dialogs := [ShowWarning InputMissing SpecifySaveDir]\<rparr>"
proof -
  have a: "\<not> is_downloading example_filled"
    by (simp add: example_filled_eq)
  have b: "\<forall>c\<in>set [32, 9, 12288]. isspace c"
    by (simp add: isspace_def)
  from whitespace_only_rejected [OF a b, of example_env] a
  show ?thesis
    by (simp add: example_filled_eq on_run_clicked_def example_env_def strip_def isspace_def
        ascii_def)
qed

text \<open>
  Claim C10. On a submission (taken in state IDLE, as every submission of a run is) the
  four checks are made in the order URL given, folder valid, extraction library
  available, codec tool available: the message box shown is the one of the first check
  that fails, and none when all pass, which is exactly when a worker starts. A later check is not consulted once an earlier one has failed: with no URL the
  result does not depend on the environment at all, with an invalid folder it does not
  depend on the two tools, without the library it does not depend on the codec tool.
\<close>

theorem checks_in_fixed_order:
  assumes "\<not> is_downloading s"
  shows
    "dialogs (on_run_clicked e s) = dialogs s @
       (case find (\<lambda>c. \<not> passes e s c) [UrlGiven, DirValid, YtdlpAvailable, FfmpegAvailable] of
          None \<Rightarrow> [] | Some c \<Rightarrow> [report c]) \<and>
     (threads (on_run_clicked e s) \<noteq> threads s \<longleftrightarrow>
        find (\<lambda>c. \<not> passes e s c) [UrlGiven, DirValid, YtdlpAvailable, FfmpegAvailable] = None) \<and>
     (\<not> passes e s UrlGiven \<longrightarrow> on_run_clicked e' s = on_run_clicked e s) \<and>
     (\<not> passes e s DirValid \<longrightarrow>
        on_run_clicked (e\<lparr>ytdlp_importable := a, ffmpeg_on_path := b\<rparr>) s = on_run_clicked e s) \<and>
     (\<not> passes e s YtdlpAvailable \<longrightarrow>
        on_run_clicked (e\<lparr>ffmpeg_on_path := b\<rparr>) s = on_run_clicked e s)"
  using assms
  by (simp add: on_run_clicked_def log_def Let_def)

theorem checks_in_fixed_order_witness:
  "\<not> is_downloading (init None) \<and>
   \<not> passes example_env_no_ffmpeg (init None) UrlGiven \<and>
   \<not> passes example_env_no_ffmpeg (init None) DirValid \<and>
   \<not> passes example_env_no_ffmpeg (init None) FfmpegAvailable \<and>
   dialogs (on_run_clicked example_env_no_ffmpeg (init None)) =
     [ShowWarning InputMissing EnterUrl] \<and>
   on_run_clicked example_env (init None) = on_run_clicked example_env_no_ffmpeg (init None)"
proof -
  have a: "\<not> is_downloading (init None)"
    by (simp add: init_eq)
  have b: "\<not> passes example_env_no_ffmpeg (init None) UrlGiven"
    "\<not> passes example_env_no_ffmpeg (init None) DirValid"
    "\<not> passes example_env_no_ffmpeg (init None) FfmpegAvailable"
    by (simp_all add: init_eq example_env_no_ffmpeg_def)
  from checks_in_fixed_order [OF a, of example_env_no_ffmpeg example_env] a b
  show ?thesis
    by (simp add: init_eq)
qed

text \<open>
  Claim C4, as stated, fails: a submission with the codec tool missing and no URL shows
  the warning that asks for a URL, and no dependency error.
\<close>

theorem dependency_missing_counterexample:
  "\<not> ffmpeg_on_path example_env_no_ffmpeg \<and> \<not> is_downloading (init None) \<and>
   dialogs (on_run_clicked example_env_no_ffmpeg (init None)) =
     [ShowWarning InputMissing EnterUrl]"
  by (simp add: example_env_no_ffmpeg_def example_env_def init_eq on_run_clicked_def)

text \<open>
  Claim C4, amended. A submission (taken in state IDLE, as every submission of a run is)
  made while the extraction library or the codec tool is missing starts no worker and
  leaves the state IDLE. When its URL and folder pass their checks, the error box of the
  missing tool (the library first) is shown and nothing else changes; otherwise the
  warning of the failing field is shown instead, and no error box.
\<close>

theorem dependency_missing_blocks:
  assumes "\<not> is_downloading s" and "\<not> ytdlp_importable e \<or> \<not> ffmpeg_on_path e"
  shows
    "threads (on_run_clicked e s) = threads s \<and>
     worker_thread (on_run_clicked e s) = worker_thread s \<and>
     \<not> is_downloading (on_run_clicked e s) \<and>
     (passes e s UrlGiven \<and> passes e s DirValid \<longrightarrow>
        on_run_clicked e s =
          s\<lparr>dialogs := dialogs s @
             [ShowError ErrorTitle
                (if \<not> ytdlp_importable e then YtdlpNotFound else FfmpegNotFound)]\<rparr>) \<and>
     (\<not> (passes e s UrlGiven \<and> passes e s DirValid) \<longrightarrow>
        on_run_clicked e s =
          s\<lparr>dialogs := dialogs s @
             [ShowWarning InputMissing
                (if strip (url_var s) = [] then EnterUrl else SpecifySaveDir)]\<rparr>)"
  using assms
  by (auto simp: on_run_clicked_def Let_def)

theorem dependency_missing_blocks_witness:
  "\<not> is_downloading example_video \<and> \<not> as_mp3_var example_video \<and>
   \<not> ffmpeg_on_path example_env_no_ffmpeg \<and>
   passes example_env_no_ffmpeg example_video UrlGiven \<and>
   passes example_env_no_ffmpeg example_video DirValid \<and>
   threads (on_run_clicked example_env_no_ffmpeg example_video) = [] \<and>
   \<not> is_downloading (on_run_clicked example_env_no_ffmpeg example_video) \<and>
   on_run_clicked example_env_no_ffmpeg example_video =
     example_video\<lparr>dialogs := [ShowError ErrorTitle FfmpegNotFound]\<rparr>"
proof -
  have a: "\<not> is_downloading example_video"
    by (simp add: example_video_eq example_filled_eq)
  have b: "\<not> ytdlp_importable example_env_no_ffmpeg \<or> \<not> ffmpeg_on_path example_env_no_ffmpeg"
    by (simp add: example_env_no_ffmpeg_def)
  from dependency_missing_blocks [OF a b]
  show ?thesis
    by (simp add: example_video_eq example_filled_eq example_env_no_ffmpeg_def example_env_def)
qed

section \<open>The options of the external tool\<close>

lemma ydl_opts_mp3:
  "ydl_opts w d True =
     [(''outtmpl'', Str (path_join w d (ascii ''%(title)s [%(id)s].%(ext)s''))),
      (''noprogress'', Bool True), (''quiet'', Bool True), (''windowsfilenames'', Bool True),
      (''format'', Str (ascii ''bestaudio/best'')),
      (''postprocessors'', Postprocessors
         [[(''key'', ascii ''FFmpegExtractAudio''), (''preferredcodec'', ascii ''mp3''),
           (''preferredquality'', ascii ''192'')]]),
      (''logger'', LoggerObj), (''progress_hooks'', ProgressHooks)]"
  by (simp add: ydl_opts_def dict_update_def dict_set_def Let_def)

lemma ydl_opts_mp4:
  "ydl_opts w d False =
     [(''outtmpl'', Str (path_join w d (ascii ''%(title)s [%(id)s].%(ext)s''))),
      (''noprogress'', Bool True), (''quiet'', Bool True), (''windowsfilenames'', Bool True),
      (''format'', Str (ascii ''bestvideo[ext=mp4]+bestaudio[ext=m4a]/best[ext=mp4]/best'')),
      (''merge_output_format'', Str (ascii ''mp4'')),
      (''logger'', LoggerObj), (''progress_hooks'', ProgressHooks)]"
  by (simp add: ydl_opts_def dict_update_def dict_set_def Let_def)

lemma do_download_tool_call:
  assumes "import_error w = None"
  shows "tool_calls (do_download w cbs j s) =
         tool_calls s @ [(job_url j, ydl_opts w (job_dir j) (job_mp3 j))]"
proof -
  from callbacks_lines obtain l0
    where l0: "\<forall>s. fold callback_effect cbs s = s\<lparr>log_queue := log_queue s @ l0\<rparr>" ..
  from assms show ?thesis
    by (simp add: do_download_def download_body_def finally_block_def except_block_def
        startfile_def log_def l0 Let_def split: sum.split exn.split)
qed

text \<open>
  Claim C6. The worker calls the tool with the options of its request, in
  \<^verbatim>\<open>_do_download\<close> as a whole and at the start of its thread in a run. With format AUDIO
  (MP3) the stream selector is \<^verbatim>\<open>bestaudio/best\<close> and one post-processor extracts the
  audio to MP3 at quality 192, with no merge format; with format VIDEO (MP4) the selector
  is \<^verbatim>\<open>bestvideo[ext=mp4]+bestaudio[ext=m4a]/best[ext=mp4]/best\<close> (the pair, then two
  fallbacks) merged into an MP4 container, with no post-processor. Every entry of the
  options but the template of the output path (which holds the folder) is fixed by the
  format alone: neither the URL nor the folder nor the platform changes it.
\<close>

theorem options_selected_by_format:
  "map_of (ydl_opts w d True) ''format'' = Some (Str (ascii ''bestaudio/best'')) \<and>
   map_of (ydl_opts w d True) ''postprocessors'' =
     Some (Postprocessors [[(''key'', ascii ''FFmpegExtractAudio''),
                            (''preferredcodec'', ascii ''mp3''),
                            (''preferredquality'', ascii ''192'')]]) \<and>
   map_of (ydl_opts w d True) ''merge_output_format'' = None \<and>
   map_of (ydl_opts w d False) ''format'' =
     Some (Str (ascii ''bestvideo[ext=mp4]+bestaudio[ext=m4a]/best[ext=mp4]/best'')) \<and>
   map_of (ydl_opts w d False) ''merge_output_format'' = Some (Str (ascii ''mp4'')) \<and>
   map_of (ydl_opts w d False) ''postprocessors'' = None \<and>
   (\<forall>k. k \<noteq> ''outtmpl'' \<longrightarrow> map_of (ydl_opts w d f) k = map_of (ydl_opts w' d' f) k) \<and>
   (import_error w = None \<longrightarrow>
      tool_calls (do_download w cbs j s) =
        tool_calls s @ [(job_url j, ydl_opts w (job_dir j) (job_mp3 j))]) \<and>
   (i < length (threads s) \<and> threads s ! i = started j \<and> import_error w = None \<longrightarrow>
      tool_calls (step s (WorkerStart i w)) =
        tool_calls s @ [(job_url j, ydl_opts w (job_dir j) (job_mp3 j))])"
proof -
  have 1: "map_of (ydl_opts w d True) ''format'' = Some (Str (ascii ''bestaudio/best''))"
    by (simp add: ydl_opts_mp3)
  have 2: "map_of (ydl_opts w d True) ''postprocessors'' =
     Some (Postprocessors [[(''key'', ascii ''FFmpegExtractAudio''),
                            (''preferredcodec'', ascii ''mp3''),
                            (''preferredquality'', ascii ''192'')]])"
    by (simp add: ydl_opts_mp3)
  have 3: "map_of (ydl_opts w d True) ''merge_output_format'' = None"
    by (simp add: ydl_opts_mp3)
  have 4: "map_of (ydl_opts w d False) ''format'' =
     Some (Str (ascii ''bestvideo[ext=mp4]+bestaudio[ext=m4a]/best[ext=mp4]/best''))"
    by (simp add: ydl_opts_mp4)
  have 5: "map_of (ydl_opts w d False) ''merge_output_format'' = Some (Str (ascii ''mp4''))"
    by (simp add: ydl_opts_mp4)
  have 6: "map_of (ydl_opts w d False) ''postprocessors'' = None"
    by (simp add: ydl_opts_mp4)
  have 7: "\<forall>k. k \<noteq> ''outtmpl'' \<longrightarrow> map_of (ydl_opts w d f) k = map_of (ydl_opts w' d' f) k"
    by (cases f) (simp_all add: ydl_opts_mp3 ydl_opts_mp4)
  have 8: "import_error w = None \<longrightarrow>
      tool_calls (do_download w cbs j s) =
        tool_calls s @ [(job_url j, ydl_opts w (job_dir j) (job_mp3 j))]"
    by (simp add: do_download_tool_call)
  have 9: "i < length (threads s) \<and> threads s ! i = started j \<and> import_error w = None \<longrightarrow>
      tool_calls (step s (WorkerStart i w)) =
        tool_calls s @ [(job_url j, ydl_opts w (job_dir j) (job_mp3 j))]"
    by (simp add: worker_start_def set_phase_def started_def)
  from 1 2 3 4 5 6 7 8 9 show ?thesis
    by (intro conjI)
qed

theorem options_selected_by_format_witness:
  "''format'' \<noteq> ''outtmpl'' \<and>
   map_of (ydl_opts example_world (ascii ''/tmp/out'') False) ''format'' =
     map_of (ydl_opts example_world (ascii ''/elsewhere'') False) ''format'' \<and>
   import_error example_world = None \<and>
   tool_calls (do_download example_world [] example_job example_running) =
     [(ascii ''https://example.com/watch?v=abc'',
       ydl_opts example_world (ascii ''/tmp/out'') True)] \<and>
   0 < length (threads example_running) \<and>
   threads example_running ! 0 = started example_job \<and>
   tool_calls (step example_running (WorkerStart 0 example_world)) =
     [(ascii ''https://example.com/watch?v=abc'',
       ydl_opts example_world (ascii ''/tmp/out'') True)]"
proof -
  have a: "''format'' \<noteq> ''outtmpl''"
    by simp
  have b: "import_error example_world = None"
    by (simp add: example_world_def)
  have h: "0 < length (threads example_running)"
    and h': "threads example_running ! 0 = started example_job"
    using example_running_thread by simp_all
  note th = options_selected_by_format [where w = example_world and d = "ascii ''/tmp/out''"
      and w' = example_world and d' = "ascii ''/elsewhere''" and f = False and cbs = "[]"
      and j = example_job and s = example_running and i = 0]
  note c7 = th [THEN conjunct2, THEN conjunct2, THEN conjunct2, THEN conjunct2,
      THEN conjunct2, THEN conjunct2]
  from a have c:
    "map_of (ydl_opts example_world (ascii ''/tmp/out'') False) ''format'' =
     map_of (ydl_opts example_world (ascii ''/elsewhere'') False) ''format''"
    by (rule c7 [THEN conjunct1, rule_format])
  from b have
    "tool_calls (do_download example_world [] example_job example_running) =
     tool_calls example_running @
       [(job_url example_job, ydl_opts example_world (job_dir example_job) (job_mp3 example_job))]"
    by (rule c7 [THEN conjunct2, THEN conjunct1, rule_format])
  then have d:
    "tool_calls (do_download example_world [] example_job example_running) =
     [(ascii ''https://example.com/watch?v=abc'',
       ydl_opts example_world (ascii ''/tmp/out'') True)]"
    by (simp add: example_running_eq example_job_def)
  from h h' b have
    "tool_calls (step example_running (WorkerStart 0 example_world)) =
     tool_calls example_running @
       [(job_url example_job, ydl_opts example_world (job_dir example_job) (job_mp3 example_job))]"
    by (intro c7 [THEN conjunct2, THEN conjunct2, rule_format] conjI)
  then have e:
    "tool_calls (step example_running (WorkerStart 0 example_world)) =
     [(ascii ''https://example.com/watch?v=abc'',
       ydl_opts example_world (ascii ''/tmp/out'') True)]"
    by (simp add: example_running_eq example_job_def del: step.simps)
  from a b c d h h' e show ?thesis
    by (intro conjI)
qed

section \<open>The order of the log\<close>

lemma chan_step_history:
  "log_text (chan_step s op) @ log_queue (chan_step s op) =
   log_text s @ log_queue s @ puts [op]"
  by (cases op)
     (simp_all add: log_def poll_log_queue_eq poll_iter_def get_nowait_def append_log_line_def
        split: list.split)

lemma puts_append: "puts (ops @ ops') = puts ops @ puts ops'"
  by (induction ops rule: puts.induct) simp_all

lemma chan_run_history:
  "log_text (foldl chan_step s ops) @ log_queue (foldl chan_step s ops) =
   log_text s @ log_queue s @ puts ops"
proof (induction ops rule: rev_induct)
  case Nil
  show ?case by simp
next
  case (snoc op ops)
  have "log_text (foldl chan_step s (ops @ [op])) @ log_queue (foldl chan_step s (ops @ [op])) =
        (log_text (foldl chan_step s ops) @ log_queue (foldl chan_step s ops)) @ puts [op]"
    by (simp add: chan_step_history)
  also have "\<dots> = log_text s @ log_queue s @ puts (ops @ [op])"
    by (simp add: snoc.IH puts_append)
  finally show ?case .
qed

text \<open>Every event of the program only appends to the lines produced so far.\<close>

lemma step_history:
  "\<exists>ls. log_text (step s e) @ log_queue (step s e) = log_text s @ log_queue s @ ls"
proof (cases e)
  case (ClickRun env)
  have "log_text (step s e) @ log_queue (step s e) = log_text s @ log_queue s @ [] \<or>
        log_text (step s e) @ log_queue (step s e) = log_text s @ log_queue s @ [LogStart]"
    using ClickRun by (simp add: on_run_clicked_def log_def Let_def)
  then show ?thesis by blast
next
  case ClickCancel
  have "log_text (step s e) @ log_queue (step s e) = log_text s @ log_queue s @ [] \<or>
        log_text (step s e) @ log_queue (step s e) =
          log_text s @ log_queue s @ [LogCancelRequested]"
    using ClickCancel by (simp add: on_cancel_clicked_def log_def)
  then show ?thesis by blast
next
  case ClickToggle
  then have "log_text (step s e) @ log_queue (step s e) =
      log_text s @ log_queue s @ [LogToggled (\<not> as_mp3_var s)]"
    by (simp add: toggle_def on_toggle_changed_def log_def)
  then show ?thesis ..
next
  case PollTick
  then have "log_text (step s e) @ log_queue (step s e) = log_text s @ log_queue s @ []"
    by (simp add: poll_log_queue_eq)
  then show ?thesis ..
next
  case (ToolCallback i cb)
  from callback_effect_lines obtain ls
    where "\<forall>s. callback_effect cb s = s\<lparr>log_queue := log_queue s @ ls\<rparr>" ..
  with ToolCallback have
    "log_text (step s e) @ log_queue (step s e) = log_text s @ log_queue s @ [] \<or>
     log_text (step s e) @ log_queue (step s e) = log_text s @ log_queue s @ ls"
    by simp
  then show ?thesis by blast
next
  case (WorkerStart i w)
  then have "log_text (step s e) @ log_queue (step s e) = log_text s @ log_queue s @ []"
    by (simp add: worker_start_def set_phase_def Let_def split: option.split)
  then show ?thesis ..
next
  case (ToolReturn i w)
  then have "log_text (step s e) @ log_queue (step s e) = log_text s @ log_queue s @ []"
    by (simp add: set_phase_def)
  then show ?thesis ..
next
  case (WorkerStep i w)
  have ex: "\<exists>ls. log_text (exec w st t) @ log_queue (exec w st t) =
                 log_text t @ log_queue t @ ls" for st t
    by (cases st) (simp_all add: log_def startfile_def)
  show ?thesis
  proof (cases "i < length (threads s)")
    case False
    with WorkerStep have
      "log_text (step s e) @ log_queue (step s e) = log_text s @ log_queue s @ []"
      by simp
    then show ?thesis ..
  next
    case True
    show ?thesis
    proof (cases "th_phase (threads s ! i)")
      case Starting
      with WorkerStep True have
        "log_text (step s e) @ log_queue (step s e) = log_text s @ log_queue s @ []"
        by (simp add: worker_step_def)
      then show ?thesis ..
    next
      case InTool
      with WorkerStep True have
        "log_text (step s e) @ log_queue (step s e) = log_text s @ log_queue s @ []"
        by (simp add: worker_step_def)
      then show ?thesis ..
    next
      case (After sts)
      show ?thesis
      proof (cases sts)
        case Nil
        with WorkerStep True After have
          "log_text (step s e) @ log_queue (step s e) = log_text s @ log_queue s @ []"
          by (simp add: worker_step_def)
        then show ?thesis ..
      next
        case (Cons st rest)
        from ex [of st s] obtain ls
          where "log_text (exec w st s) @ log_queue (exec w st s) =
                 log_text s @ log_queue s @ ls" ..
        with WorkerStep True After Cons have
          "log_text (step s e) @ log_queue (step s e) = log_text s @ log_queue s @ ls"
          by (simp add: worker_step_def set_phase_def)
        then show ?thesis ..
      qed
    qed
  qed
next
  case (EditUrl t)
  then have "log_text (step s e) @ log_queue (step s e) = log_text s @ log_queue s @ []"
    by simp
  then show ?thesis ..
next
  case (EditDir t)
  then have "log_text (step s e) @ log_queue (step s e) = log_text s @ log_queue s @ []"
    by simp
  then show ?thesis ..
next
  case (ClickPaste clip)
  then have "log_text (step s e) @ log_queue (step s e) = log_text s @ log_queue s @ []"
    by (simp add: paste_from_clipboard_def split: option.split)
  then show ?thesis ..
next
  case (ChooseDir d)
  then have "log_text (step s e) @ log_queue (step s e) = log_text s @ log_queue s @ []"
    by (simp add: choose_dir_def)
  then show ?thesis ..
qed

text \<open>
  Claim C5. Take any interleaving of lines put on the queue (by the worker or by the
  interface) with single takes and whole drains by the interface. At every moment the log
  pane followed by the queue is what was there at the start followed by the lines put, in
  the order they were put: no line is reordered, dropped or duplicated. After a drain the
  queue is empty and the log pane shows all of them. Every event of the program keeps
  the lines produced so far and only appends to them.
\<close>

theorem log_order_preserved:
  "log_text (foldl chan_step s ops) @ log_queue (foldl chan_step s ops) =
     log_text s @ log_queue s @ puts ops \<and>
   log_text (poll_log_queue (foldl chan_step s ops)) = log_text s @ log_queue s @ puts ops \<and>
   log_queue (poll_log_queue (foldl chan_step s ops)) = [] \<and>
   (\<exists>ls. log_text (step s e) @ log_queue (step s e) = log_text s @ log_queue s @ ls)"
  using chan_run_history [of s ops] step_history [of s e] by (simp add: poll_log_queue_eq)

theorem log_order_preserved_witness:
  "log_text (poll_log_queue (foldl chan_step (init None)
      [Put LogStart, Get, Put LogConverting, Drain, Put LogIdle])) =
     [LogReady, LogStart, LogConverting, LogIdle] \<and>
   log_queue (poll_log_queue (foldl chan_step (init None)
      [Put LogStart, Get, Put LogConverting, Drain, Put LogIdle])) = []"
  using log_order_preserved [of "init None"
      "[Put LogStart, Get, Put LogConverting, Drain, Put LogIdle]"]
  by (simp add: init_eq)

section \<open>One worker at a time\<close>

lemma on_run_clicked_running: "is_downloading s \<Longrightarrow> on_run_clicked e s = s"
  by (simp add: on_run_clicked_def)

lemma exec_sets_no_flag: "is_downloading (exec w st s) \<Longrightarrow> is_downloading s"
  by (cases st) (simp_all add: startfile_def split: if_splits)

lemma exec_clears_flag:
  "is_downloading s \<Longrightarrow> \<not> is_downloading (exec w st s) \<Longrightarrow> st = ClearFlag"
  by (cases st) (simp_all add: startfile_def split: if_splits)

lemma worker_step_flag:
  "is_downloading (worker_step i w s) \<Longrightarrow> is_downloading s"
  by (auto simp: worker_step_def set_phase_def split: phase.splits list.splits
      dest: exec_sets_no_flag)

lemma idle_to_running:
  assumes "\<not> is_downloading s" and "is_downloading (step s ev)"
  shows "\<exists>e. ev = ClickRun e \<and> run_btn s = Normal \<and> valid_submission e s \<and>
             threads (step s ev) = threads s @ [started (request s)]"
proof (cases ev)
  case (ClickRun e)
  with assms show ?thesis
    by (auto simp: on_run_clicked_cases valid_submission_def split: if_splits)
next
  case (WorkerStep i w)
  with assms show ?thesis
    by (auto split: if_splits dest: worker_step_flag)
next
  case (WorkerStart i w)
  with assms show ?thesis
    by (simp add: worker_start_def set_phase_def Let_def split: if_splits option.splits)
next
  case (ToolReturn i w)
  with assms show ?thesis
    by (simp add: set_phase_def split: if_splits)
qed (use assms in \<open>simp_all add: paste_from_clipboard_def choose_dir_def
       toggle_def on_toggle_changed_def log_def poll_log_queue_eq on_cancel_clicked_def
       split: option.splits if_splits\<close>)

lemma running_to_idle:
  assumes "is_downloading s" and "\<not> is_downloading (step s ev)"
  shows "(\<exists>i w rest. ev = WorkerStep i w \<and> i < length (threads s) \<and>
            th_phase (threads s ! i) = After (ClearFlag # rest)) \<or>
         (ev = ClickCancel \<and> cancel_btn s = Normal \<and> threads (step s ev) = threads s)"
proof (cases ev)
  case (ClickRun e)
  with assms show ?thesis
    by (simp add: on_run_clicked_def split: if_splits)
next
  case ClickCancel
  with assms show ?thesis
    by (simp add: on_cancel_clicked_def log_def split: if_splits)
next
  case (WorkerStep i w)
  from assms WorkerStep have i: "i < length (threads s)"
    by (simp split: if_splits)
  with assms WorkerStep have n: "\<not> is_downloading (worker_step i w s)"
    by simp
  show ?thesis
  proof (cases "th_phase (threads s ! i)")
    case (After sts)
    show ?thesis
    proof (cases sts)
      case Nil
      with After n assms(1) show ?thesis
        by (simp add: worker_step_def)
    next
      case (Cons st rest)
      with After n have "\<not> is_downloading (exec w st s)"
        by (simp add: worker_step_def set_phase_def)
      with assms(1) have "st = ClearFlag"
        by (rule exec_clears_flag)
      with After Cons WorkerStep i show ?thesis
        by simp
    qed
  qed (use n assms(1) in \<open>simp_all add: worker_step_def\<close>)
next
  case (WorkerStart i w)
  with assms show ?thesis
    by (simp add: worker_start_def set_phase_def Let_def split: if_splits option.splits)
next
  case (ToolReturn i w)
  with assms show ?thesis
    by (simp add: set_phase_def split: if_splits)
qed (use assms in \<open>simp_all add: paste_from_clipboard_def choose_dir_def
       toggle_def on_toggle_changed_def log_def poll_log_queue_eq
       split: option.splits if_splits\<close>)

lemma well_formed_clear_flag:
  assumes "well_formed t" and "th_phase t = After (ClearFlag # rest)"
  shows "th_phase t = After finally_stmts"
proof -
  from assms consider
      pre where "ClearFlag # rest = pre @ finally_stmts" "list_all plain pre"
    | "ClearFlag # rest = [EnableRun, DisableCancel, PutLog LogIdle]"
    | "ClearFlag # rest = [DisableCancel, PutLog LogIdle]"
    | "ClearFlag # rest = [PutLog LogIdle]"
    by (auto simp: well_formed_def)
  then show ?thesis
  proof cases
    case 1
    then have "pre = []"
      by (cases pre) auto
    with 1 assms(2) show ?thesis
      by simp
  qed simp_all
qed

lemma consistent_running:
  assumes "consistent s" and "is_downloading s"
  shows "run_btn s = Disabled" and "length (filter at_work (threads s)) = 1"
proof -
  from assms have n: "run_btn s \<noteq> Normal"
    by (auto simp: consistent_def)
  then show "run_btn s = Disabled"
    by (cases "run_btn s") simp_all
  from assms(1) n have "length (filter at_work (threads s)) \<noteq> 0"
    by (simp add: consistent_def)
  moreover from assms(1) have "length (filter at_work (threads s)) \<le> 1"
    by (simp add: consistent_def)
  ultimately show "length (filter at_work (threads s)) = 1"
    by arith
qed

text \<open>
  Claim C1, as stated, fails in its last part: a cancel request clears the flag (state
  RUNNING to IDLE) at once, while the worker is still alive, at its start, and has
  executed nothing of its exit.
\<close>

theorem idle_before_exit_counterexample:
  "is_downloading example_running \<and>
   \<not> is_downloading (step example_running ClickCancel) \<and>
   \<not> is_worker_step ClickCancel \<and>
   threads (step example_running ClickCancel) = threads example_running \<and>
   threads (step example_running ClickCancel) = [started example_job]"
  by (simp add: example_running_eq on_cancel_clicked_def log_def started_def example_job_def)

text \<open>
  The flag alone does not keep a second worker out: called after a cancel request, the
  handler \<^verbatim>\<open>_on_run_clicked\<close> starts a second thread. In a run it is not called then,
  because the run button stays disabled until line 338 of the worker.
\<close>

lemma handler_after_cancel_starts_second:
  "length (threads (on_run_clicked example_env (step example_running ClickCancel))) = 2 \<and>
   step (step example_running ClickCancel) (ClickRun example_env) =
     step example_running ClickCancel"
  by (simp add: example_running_eq on_cancel_clicked_def on_run_clicked_def example_env_def
      log_def Let_def)

lemma example_finally_eq:
  "example_finally =
     example_running
       \<lparr>log_queue := [LogStart, LogDone (ascii ''/tmp/out/abc [x1].mp3'')],
        tool_calls := [(ascii ''https://example.com/watch?v=abc'',
                        ydl_opts example_world (ascii ''/tmp/out'') True)],
        threads := [\<lparr>th_job = example_job, th_phase = After finally_stmts\<rparr>]\<rparr>"
  by (simp add: example_finally_def run_def example_running_eq worker_start_def
      worker_step_def set_phase_def after_tool_def done_stmts_def example_world_def
      example_job_def startfile_def log_def dict_get_def ascii_def Let_def)

lemma example_cleanup_eq:
  "example_cleanup =
     example_finally
       \<lparr>is_downloading := False, run_btn := Normal,
        threads := [\<lparr>th_job = example_job, th_phase = After [DisableCancel, PutLog LogIdle]\<rparr>]\<rparr>"
  by (simp add: example_cleanup_def run_def example_finally_eq example_running_eq
      worker_step_def set_phase_def finally_stmts_def)

lemma example_finally_run:
  "example_finally =
     run (init None)
       [EditUrl (ascii ''https://example.com/watch?v=abc''), EditDir (ascii ''/tmp/out''),
        ClickRun example_env, WorkerStart 0 example_world, ToolReturn 0 example_world,
        WorkerStep 0 example_world, WorkerStep 0 example_world]"
  by (simp only: example_finally_def example_running_def run_def foldl_Cons foldl_Nil)

text \<open>
  A worker past line 338 is still alive, with lines 339 and 340 to execute. A submission
  made at that moment is taken: the thread of the new job starts while the first thread
  is alive, and the first thread then disables the cancel button under the new job.
\<close>

lemma finishing_worker_overlaps:
  "\<not> is_downloading example_cleanup \<and>
   threads example_cleanup =
     [\<lparr>th_job = example_job, th_phase = After [DisableCancel, PutLog LogIdle]\<rparr>] \<and>
   threads (run example_cleanup [ClickRun example_env]) =
     [\<lparr>th_job = example_job, th_phase = After [DisableCancel, PutLog LogIdle]\<rparr>,
      started example_job] \<and>
   length (filter at_work (threads (run example_cleanup [ClickRun example_env]))) = 1 \<and>
   is_downloading (run example_cleanup [ClickRun example_env, WorkerStep 0 example_world]) \<and>
   cancel_btn (run example_cleanup [ClickRun example_env, WorkerStep 0 example_world]) =
     Disabled"
  by (simp add: example_cleanup_eq example_finally_eq example_running_eq run_def
      on_run_clicked_cases example_env_def request_def started_def example_job_def
      at_work_def worker_step_def set_phase_def)

text \<open>
  Claim C1, amended. In every state of a run from the start, under any sequence of
  events: at most one worker is at work, that is, between its start and line 338 of its
  cleanup; while the state is RUNNING exactly one worker is at work and a submission is a
  no-op that starts no second worker (the handler returns at once, and the click does not
  even reach it); the state goes from IDLE to RUNNING only by a valid submission, made
  while no worker is at work, which starts the thread of the request; and it goes from
  RUNNING to IDLE only when a worker enters its cleanup and executes line 337, or at once
  on a cancel request, which leaves the threads as they are and the worker at work.
\<close>

theorem one_worker_at_a_time:
  "length (filter at_work (threads (run (init dl) evs))) \<le> 1 \<and>
   (is_downloading (run (init dl) evs) \<longrightarrow>
      length (filter at_work (threads (run (init dl) evs))) = 1 \<and>
      on_run_clicked e (run (init dl) evs) = run (init dl) evs \<and>
      step (run (init dl) evs) (ClickRun e) = run (init dl) evs) \<and>
   (\<not> is_downloading (run (init dl) evs) \<and> is_downloading (step (run (init dl) evs) ev) \<longrightarrow>
      (\<exists>e'. ev = ClickRun e' \<and> valid_submission e' (run (init dl) evs)) \<and>
      filter at_work (threads (run (init dl) evs)) = [] \<and>
      threads (step (run (init dl) evs) ev) =
        threads (run (init dl) evs) @ [started (request (run (init dl) evs))]) \<and>
   (is_downloading (run (init dl) evs) \<and> \<not> is_downloading (step (run (init dl) evs) ev) \<longrightarrow>
      (\<exists>i w. ev = WorkerStep i w \<and> i < length (threads (run (init dl) evs)) \<and>
             th_phase (threads (run (init dl) evs) ! i) = After finally_stmts) \<or>
      (ev = ClickCancel \<and>
       threads (step (run (init dl) evs) ev) = threads (run (init dl) evs) \<and>
       length (filter at_work (threads (step (run (init dl) evs) ev))) = 1))"
proof -
  define s where "s = run (init dl) evs"
  have c: "consistent s"
    unfolding s_def by (rule reachable_consistent)
  have 1: "length (filter at_work (threads s)) \<le> 1"
    using c by (simp add: consistent_def)
  have 2: "is_downloading s \<longrightarrow> length (filter at_work (threads s)) = 1 \<and>
      on_run_clicked e s = s \<and> step s (ClickRun e) = s"
    using consistent_running [OF c] by (simp add: on_run_clicked_running)
  have 3: "\<not> is_downloading s \<and> is_downloading (step s ev) \<longrightarrow>
      (\<exists>e'. ev = ClickRun e' \<and> valid_submission e' s) \<and> filter at_work (threads s) = [] \<and>
      threads (step s ev) = threads s @ [started (request s)]"
  proof
    assume a: "\<not> is_downloading s \<and> is_downloading (step s ev)"
    then obtain e' where e': "ev = ClickRun e'" "run_btn s = Normal" "valid_submission e' s"
        "threads (step s ev) = threads s @ [started (request s)]"
      using idle_to_running [of s ev] by blast
    from c e'(2) have "filter at_work (threads s) = []"
      by (simp add: consistent_def)
    with e' show "(\<exists>e'. ev = ClickRun e' \<and> valid_submission e' s) \<and>
      filter at_work (threads s) = [] \<and>
      threads (step s ev) = threads s @ [started (request s)]"
      by blast
  qed
  have 4: "is_downloading s \<and> \<not> is_downloading (step s ev) \<longrightarrow>
      (\<exists>i w. ev = WorkerStep i w \<and> i < length (threads s) \<and>
             th_phase (threads s ! i) = After finally_stmts) \<or>
      (ev = ClickCancel \<and> threads (step s ev) = threads s \<and>
       length (filter at_work (threads (step s ev))) = 1)"
  proof
    assume a: "is_downloading s \<and> \<not> is_downloading (step s ev)"
    with c have one: "length (filter at_work (threads s)) = 1"
      by (simp add: consistent_running)
    from a consider (cleanup) i w rest where "ev = WorkerStep i w" "i < length (threads s)"
        "th_phase (threads s ! i) = After (ClearFlag # rest)"
      | (cancel) "ev = ClickCancel" "cancel_btn s = Normal" "threads (step s ev) = threads s"
      using running_to_idle [of s ev] by blast
    then show "(\<exists>i w. ev = WorkerStep i w \<and> i < length (threads s) \<and>
             th_phase (threads s ! i) = After finally_stmts) \<or>
      (ev = ClickCancel \<and> threads (step s ev) = threads s \<and>
       length (filter at_work (threads (step s ev))) = 1)"
    proof cases
      case cleanup
      from c cleanup(2) have "well_formed (threads s ! i)"
        by (simp add: consistent_def list_all_length)
      then have "th_phase (threads s ! i) = After finally_stmts"
        using cleanup(3) by (rule well_formed_clear_flag)
      with cleanup(1,2) show ?thesis
        by blast
    next
      case cancel
      with one show ?thesis
        by simp
    qed
  qed
  from 1 2 3 4 show ?thesis
    unfolding s_def by (intro conjI)
qed

theorem one_worker_at_a_time_witness:
  "is_downloading example_running \<and>
   length (filter at_work (threads example_running)) = 1 \<and>
   step example_running (ClickRun example_env) = example_running \<and>
   \<not> is_downloading example_filled \<and>
   is_downloading (step example_filled (ClickRun example_env)) \<and>
   threads (step example_filled (ClickRun example_env)) = [started example_job] \<and>
   \<not> is_downloading (step example_running ClickCancel) \<and>
   length (filter at_work (threads (step example_running ClickCancel))) = 1 \<and>
   is_downloading example_finally \<and>
   \<not> is_downloading (step example_finally (WorkerStep 0 example_world)) \<and>
   th_phase (threads example_finally ! 0) = After finally_stmts"
proof -
  have a: "is_downloading example_running"
    and b: "\<not> is_downloading (step example_running ClickCancel)"
    by (simp_all add: example_running_eq on_cancel_clicked_def log_def)
  have f: "\<not> is_downloading example_filled"
    and g: "is_downloading (step example_filled (ClickRun example_env))"
    by (simp_all add: example_filled_eq on_run_clicked_cases example_env_def)
  have h: "is_downloading example_finally"
    and k: "\<not> is_downloading (step example_finally (WorkerStep 0 example_world))"
    by (simp_all add: example_finally_eq example_running_eq worker_step_def set_phase_def
        finally_stmts_def)
  note running = one_worker_at_a_time [where dl = None
      and evs = "[EditUrl (ascii ''https://example.com/watch?v=abc''),
                  EditDir (ascii ''/tmp/out''), ClickRun example_env]"
      and e = example_env, folded example_running_def]
  note filled = one_worker_at_a_time [where dl = None
      and evs = "[EditUrl (ascii ''https://example.com/watch?v=abc''),
                  EditDir (ascii ''/tmp/out'')]"
      and e = example_env and ev = "ClickRun example_env", folded example_filled_def]
  note cleanup = one_worker_at_a_time [where dl = None
      and evs = "[EditUrl (ascii ''https://example.com/watch?v=abc''),
                  EditDir (ascii ''/tmp/out''), ClickRun example_env,
                  WorkerStart 0 example_world, ToolReturn 0 example_world,
                  WorkerStep 0 example_world, WorkerStep 0 example_world]"
      and e = example_env and ev = "WorkerStep 0 example_world", folded example_finally_run]
  note r = running [where ev = ClickCancel, THEN conjunct2, THEN conjunct1, rule_format, OF a]
  from r have d: "length (filter at_work (threads example_running)) = 1"
    by (rule conjunct1)
  from r have d': "step example_running (ClickRun example_env) = example_running"
    by (rule conjunct2 [THEN conjunct2])
  from filled [THEN conjunct2, THEN conjunct2, THEN conjunct1, rule_format, OF conjI [OF f g]]
  have "threads (step example_filled (ClickRun example_env)) =
        threads example_filled @ [started (request example_filled)]"
    by (rule conjunct2 [THEN conjunct2])
  moreover have "threads example_filled = []"
    by (simp add: example_filled_eq)
  ultimately
  have t: "threads (step example_filled (ClickRun example_env)) = [started example_job]"
    by (simp only: request_example append_Nil)
  from running [where ev = ClickCancel, THEN conjunct2, THEN conjunct2, THEN conjunct2,
      rule_format, OF conjI [OF a b]]
  have e: "length (filter at_work (threads (step example_running ClickCancel))) = 1"
    by (auto simp del: step.simps)
  from cleanup [THEN conjunct2, THEN conjunct2, THEN conjunct2, rule_format, OF conjI [OF h k]]
  have p: "th_phase (threads example_finally ! 0) = After finally_stmts"
    by (auto simp del: step.simps)
  from a d d' f g t b e h k p show ?thesis
    by (intro conjI)
qed

section \<open>The toggle and a job in flight\<close>

lemma untoggle_sel [simp]:
  "url_var (untoggle s) = url_var s"
  "save_dir_var (untoggle s) = save_dir_var s"
  "as_mp3_var (untoggle s) = True"
  "is_downloading (untoggle s) = is_downloading s"
  "worker_thread (untoggle s) = worker_thread s"
  "run_btn (untoggle s) = run_btn s"
  "cancel_btn (untoggle s) = cancel_btn s"
  "dialogs (untoggle s) = dialogs s"
  "opened (untoggle s) = opened s"
  "tool_calls (untoggle s) = tool_calls s"
  "threads (untoggle s) = threads s"
  by (simp_all add: untoggle_def)

lemma untoggle_idem [simp]: "untoggle (untoggle s) = untoggle s"
  by (simp add: untoggle_def)

lemma untoggle_toggle: "untoggle (step s ClickToggle) = untoggle s"
  by (simp add: untoggle_def toggle_def on_toggle_changed_def log_def)

lemma untoggle_callback:
  "untoggle (callback_effect cb (untoggle s)) = untoggle (callback_effect cb s)"
proof -
  from callback_effect_lines obtain ls
    where "\<forall>s. callback_effect cb s = s\<lparr>log_queue := log_queue s @ ls\<rparr>" ..
  then show ?thesis
    by (simp add: untoggle_def)
qed

lemma untoggle_exec: "untoggle (exec w st (untoggle s)) = untoggle (exec w st s)"
  by (cases st) (simp_all add: untoggle_def log_def startfile_def)

lemma untoggle_threads_upd: "untoggle (s\<lparr>threads := ts\<rparr>) = (untoggle s)\<lparr>threads := ts\<rparr>"
  by (simp add: untoggle_def)

lemma untoggle_set_phase: "untoggle (set_phase i p s) = set_phase i p (untoggle s)"
  by (simp add: untoggle_def set_phase_def)

lemma untoggle_worker_start:
  "untoggle (worker_start i w (untoggle s)) = untoggle (worker_start i w s)"
  by (simp add: worker_start_def Let_def untoggle_set_phase split: option.split)
     (simp add: untoggle_def set_phase_def)

lemma untoggle_worker_step:
  "untoggle (worker_step i w (untoggle s)) = untoggle (worker_step i w s)"
proof (cases "th_phase (threads s ! i)")
  case (After sts)
  show ?thesis
  proof (cases sts)
    case Nil
    with After show ?thesis
      by (simp add: worker_step_def untoggle_threads_upd)
  next
    case (Cons st rest)
    have "untoggle (set_phase i (After rest) (exec w st (untoggle s))) =
          set_phase i (After rest) (untoggle (exec w st (untoggle s)))"
      by (rule untoggle_set_phase)
    also have "\<dots> = set_phase i (After rest) (untoggle (exec w st s))"
      by (simp only: untoggle_exec)
    also have "\<dots> = untoggle (set_phase i (After rest) (exec w st s))"
      by (rule untoggle_set_phase [symmetric])
    finally show ?thesis
      using After Cons by (simp add: worker_step_def)
  qed
qed (simp_all add: worker_step_def)

text \<open>
  An event other than a click on the toggle, and other than a submission that the run
  button lets through, does the same to a state and to the state without the toggle's
  traces.
\<close>

lemma untoggle_step:
  assumes "\<not> is_toggle e" and "is_submit e \<longrightarrow> run_btn s = Disabled"
  shows "untoggle (step (untoggle s) e) = untoggle (step s e)"
proof (cases e)
  case (ClickRun env)
  with assms(2) show ?thesis
    by simp
next
  case ClickToggle
  with assms(1) show ?thesis
    by simp
next
  case ClickCancel
  then show ?thesis
    by (simp add: on_cancel_clicked_def) (simp add: untoggle_def log_def)
next
  case PollTick
  then show ?thesis
    by (simp add: untoggle_def poll_log_queue_eq)
next
  case (ToolCallback i cb)
  then show ?thesis
    by (simp add: untoggle_callback)
next
  case (WorkerStart i w)
  then show ?thesis
    by (simp add: untoggle_worker_start)
next
  case (ToolReturn i w)
  then show ?thesis
    by (simp add: untoggle_set_phase)
next
  case (WorkerStep i w)
  then show ?thesis
    by (simp add: untoggle_worker_step)
qed (simp_all add: untoggle_def paste_from_clipboard_def choose_dir_def split: option.split)

lemma untoggle_eq_run_btn: "untoggle s = untoggle t \<Longrightarrow> run_btn s = run_btn t"
  by (metis untoggle_sel(6))

lemma untoggle_run_no_new_job:
  assumes "untoggle s = untoggle t" and "no_new_job s evs"
  shows "untoggle (run s evs) = untoggle (run t (filter (\<lambda>e. \<not> is_toggle e) evs))"
  using assms
proof (induction evs arbitrary: s t)
  case Nil
  then show ?case by (simp add: run_Nil)
next
  case (Cons e evs)
  from Cons.prems(2) have sub: "is_submit e \<longrightarrow> run_btn s = Disabled"
    and rest: "no_new_job (step s e) evs"
    by simp_all
  show ?case
  proof (cases "is_toggle e")
    case True
    then have e: "e = ClickToggle"
      by (cases e) simp_all
    have "untoggle (step s e) = untoggle t"
      unfolding e untoggle_toggle by (rule Cons.prems(1))
    from Cons.IH [OF this rest] True show ?thesis
      by (simp only: run_Cons filter.simps simp_thms if_False)
  next
    case False
    from sub untoggle_eq_run_btn [OF Cons.prems(1)]
    have sub': "is_submit e \<longrightarrow> run_btn t = Disabled"
      by simp
    have "untoggle (step s e) = untoggle (step (untoggle s) e)"
      using False sub by (rule untoggle_step [symmetric])
    also have "\<dots> = untoggle (step (untoggle t) e)"
      by (simp only: Cons.prems(1))
    also have "\<dots> = untoggle (step t e)"
      using False sub' by (rule untoggle_step)
    finally have "untoggle (step s e) = untoggle (step t e)" .
    from Cons.IH [OF this rest] False show ?thesis
      by (simp only: run_Cons filter.simps simp_thms if_True)
  qed
qed

text \<open>Until a thread ends or a job is submitted, the threads keep their jobs.\<close>

lemma jobs_set_phase:
  "i < length (threads s) \<Longrightarrow> map th_job (threads (set_phase i p s)) = map th_job (threads s)"
  by (simp add: set_phase_def map_update list_update_same_conv)

lemma jobs_step:
  assumes "\<not> is_worker_step e" and "is_submit e \<longrightarrow> run_btn s = Disabled"
  shows "map th_job (threads (step s e)) = map th_job (threads s)"
proof (cases e)
  case (WorkerStart i w)
  show ?thesis
  proof (cases "i < length (threads s) \<and> th_phase (threads s ! i) = Starting")
    case True
    then have "i < length (threads s)" by simp
    then show ?thesis
      using True WorkerStart
      by (simp add: worker_start_def Let_def set_phase_def map_update list_update_same_conv
          split: option.split)
  next
    case False
    with WorkerStart show ?thesis by auto
  qed
next
  case (ToolReturn i w)
  then show ?thesis
    by (simp add: jobs_set_phase)
qed (use assms in \<open>simp_all add: paste_from_clipboard_def choose_dir_def toggle_def
       on_toggle_changed_def on_cancel_clicked_def poll_log_queue_eq split: option.split\<close>)

lemma jobs_run:
  assumes "no_new_job s evs" and "\<forall>ev\<in>set evs. \<not> is_worker_step ev"
  shows "map th_job (threads (run s evs)) = map th_job (threads s)"
  using assms
proof (induction evs arbitrary: s)
  case Nil
  show ?case by (simp add: run_Nil)
next
  case (Cons e evs)
  from Cons.prems have "map th_job (threads (step s e)) = map th_job (threads s)"
    by (intro jobs_step) simp_all
  moreover from Cons.prems have "map th_job (threads (run (step s e) evs)) =
      map th_job (threads (step s e))"
    by (intro Cons.IH) simp_all
  ultimately show ?case
    by (simp add: run_Cons)
qed

lemma no_submit_no_new_job: "\<forall>ev\<in>set evs. \<not> is_submit ev \<Longrightarrow> no_new_job s evs"
  by (induction evs arbitrary: s) simp_all

lemma do_download_ignores_toggle:
  "do_download w cbs j (s\<lparr>as_mp3_var := b\<rparr>) = (do_download w cbs j s)\<lparr>as_mp3_var := b\<rparr>"
proof -
  from do_download_effect obtain ls ds ps cs where "\<forall>s. do_download w cbs j s =
     s\<lparr>log_queue := log_queue s @ ls, is_downloading := False, run_btn := Normal,
       cancel_btn := Disabled, dialogs := dialogs s @ ds, opened := opened s @ ps,
       tool_calls := tool_calls s @ cs\<rparr>"
    by blast
  then show ?thesis
    by simp
qed

text \<open>
  Claim C7. A valid submission in state IDLE starts the worker with the value the toggle
  has at that moment, and this is the only time the variable is read for the job: the
  worker's code does not read it (the interface reads it again only to log a switch).
  After the submission, take two sequences of events (of the interface and of the
  workers, statement by statement, up to the worker's end and beyond) in which no further
  job is submitted and which differ only in clicks on the toggle. The two states they end
  in are the same apart from the toggle's own traces (its variable and its log lines):
  the same threads with the same requests, the same calls of the tool with the same
  options, the same opened paths, message boxes and worker log lines. And until a thread
  ends, the request of the job stays what the submission made it.
\<close>

theorem toggle_after_submit_ignored:
  assumes "\<not> is_downloading s0" and "valid_submission e s0"
    and "no_new_job (on_run_clicked e s0) evs1" and "no_new_job (on_run_clicked e s0) evs2"
    and "filter (\<lambda>ev. \<not> is_toggle ev) evs1 = filter (\<lambda>ev. \<not> is_toggle ev) evs2"
  shows
    "threads (on_run_clicked e s0) = threads s0 @ [started (request s0)] \<and>
     job_mp3 (request s0) = as_mp3_var s0 \<and>
     ((\<forall>ev\<in>set evs1. \<not> is_worker_step ev) \<longrightarrow>
        map th_job (threads (run (on_run_clicked e s0) evs1)) =
          map th_job (threads s0) @ [request s0]) \<and>
     untoggle (run (on_run_clicked e s0) evs1) = untoggle (run (on_run_clicked e s0) evs2) \<and>
     threads (run (on_run_clicked e s0) evs1) = threads (run (on_run_clicked e s0) evs2) \<and>
     tool_calls (run (on_run_clicked e s0) evs1) =
       tool_calls (run (on_run_clicked e s0) evs2) \<and>
     opened (run (on_run_clicked e s0) evs1) = opened (run (on_run_clicked e s0) evs2) \<and>
     dialogs (run (on_run_clicked e s0) evs1) = dialogs (run (on_run_clicked e s0) evs2) \<and>
     do_download w cbs j (s\<lparr>as_mp3_var := b\<rparr>) = (do_download w cbs j s)\<lparr>as_mp3_var := b\<rparr>"
proof -
  define s1 where "s1 = on_run_clicked e s0"
  define nt where "nt = (\<lambda>ev. \<not> is_toggle ev)"
  from assms(1,2) have sub: "threads s1 = threads s0 @ [started (request s0)]"
    by (simp add: s1_def on_run_clicked_cases valid_submission_def)
  have mp3: "job_mp3 (request s0) = as_mp3_var s0"
    by (simp add: request_def)
  have jobs: "(\<forall>ev\<in>set evs1. \<not> is_worker_step ev) \<longrightarrow>
      map th_job (threads (run s1 evs1)) = map th_job (threads s0) @ [request s0]"
  proof
    assume "\<forall>ev\<in>set evs1. \<not> is_worker_step ev"
    with assms(3) have "map th_job (threads (run s1 evs1)) = map th_job (threads s1)"
      unfolding s1_def by (rule jobs_run)
    then show "map th_job (threads (run s1 evs1)) = map th_job (threads s0) @ [request s0]"
      by (simp add: sub started_def)
  qed
  from untoggle_run_no_new_job [OF refl assms(3)]
  have r1: "untoggle (run s1 evs1) = untoggle (run s1 (filter nt evs1))"
    by (simp only: s1_def nt_def)
  from untoggle_run_no_new_job [OF refl assms(4)]
  have r2: "untoggle (run s1 evs2) = untoggle (run s1 (filter nt evs2))"
    by (simp only: s1_def nt_def)
  from r1 r2 assms(5) have fin: "untoggle (run s1 evs1) = untoggle (run s1 evs2)"
    by (simp add: nt_def)
  have th: "threads (run s1 evs1) = threads (run s1 evs2)"
    using arg_cong [OF fin, of threads] by (simp only: untoggle_sel)
  have tc: "tool_calls (run s1 evs1) = tool_calls (run s1 evs2)"
    using arg_cong [OF fin, of tool_calls] by (simp only: untoggle_sel)
  have op: "opened (run s1 evs1) = opened (run s1 evs2)"
    using arg_cong [OF fin, of opened] by (simp only: untoggle_sel)
  have di: "dialogs (run s1 evs1) = dialogs (run s1 evs2)"
    using arg_cong [OF fin, of dialogs] by (simp only: untoggle_sel)
  note dd = do_download_ignores_toggle [where w = w and cbs = cbs and j = j and s = s and b = b]
  from sub mp3 jobs fin th tc op di dd show ?thesis
    unfolding s1_def by (intro conjI)
qed

lemma example_toggled_eq:
  "run (on_run_clicked example_env example_filled)
     [ClickRun example_env, ClickToggle, PollTick] =
   example_running\<lparr>as_mp3_var := False, log_queue := [],
     log_text := [LogReady, LogStart, LogToggled False]\<rparr>"
  by (simp add: example_running_submit [symmetric] example_running_eq run_def toggle_def
      on_toggle_changed_def log_def poll_log_queue_eq)

theorem toggle_after_submit_ignored_witness:
  "\<not> is_downloading example_filled \<and> valid_submission example_env example_filled \<and>
   no_new_job (on_run_clicked example_env example_filled)
     (ClickRun example_env # ClickToggle # PollTick #
      worker_events 0 example_world [] example_job) \<and>
   as_mp3_var example_filled \<and>
   \<not> as_mp3_var (run (on_run_clicked example_env example_filled)
        (ClickRun example_env # ClickToggle # PollTick #
         worker_events 0 example_world [] example_job)) \<and>
   job_mp3 (request example_filled) \<and>
   map th_job (threads (run (on_run_clicked example_env example_filled)
      [ClickRun example_env, ClickToggle, PollTick])) = [request example_filled] \<and>
   untoggle (run (on_run_clicked example_env example_filled)
      (ClickRun example_env # ClickToggle # PollTick #
       worker_events 0 example_world [] example_job)) =
     untoggle (run (on_run_clicked example_env example_filled)
      (ClickRun example_env # PollTick # worker_events 0 example_world [] example_job)) \<and>
   tool_calls (run (on_run_clicked example_env example_filled)
      (ClickRun example_env # ClickToggle # PollTick #
       worker_events 0 example_world [] example_job)) =
     tool_calls (run (on_run_clicked example_env example_filled)
      (ClickRun example_env # PollTick # worker_events 0 example_world [] example_job))"
proof -
  let ?s1 = "on_run_clicked example_env example_filled"
  let ?we = "worker_events 0 example_world [] example_job"
  have a: "\<not> is_downloading example_filled"
    by (simp add: example_filled_eq)
  have b: "valid_submission example_env example_filled"
    by (simp add: example_filled_eq valid_submission_def example_env_def)
  have rb: "run_btn ?s1 = Disabled"
    by (simp add: example_running_submit [symmetric] example_running_eq)
  have we: "\<forall>ev\<in>set ?we. \<not> is_submit ev"
    by (simp add: worker_events_def example_world_def)
  from rb we have c: "no_new_job ?s1 (ClickRun example_env # ClickToggle # PollTick # ?we)"
    and d: "no_new_job ?s1 (ClickRun example_env # PollTick # ?we)"
    by (simp_all add: no_submit_no_new_job del: step.simps)
  from rb have c': "no_new_job ?s1 [ClickRun example_env, ClickToggle, PollTick]"
    and d': "no_new_job ?s1 [ClickRun example_env, PollTick]"
    by (simp_all add: no_submit_no_new_job del: step.simps)
  have f: "filter (\<lambda>ev. \<not> is_toggle ev) (ClickRun example_env # ClickToggle # PollTick # ?we) =
           filter (\<lambda>ev. \<not> is_toggle ev) (ClickRun example_env # PollTick # ?we)"
    and f': "filter (\<lambda>ev. \<not> is_toggle ev) [ClickRun example_env, ClickToggle, PollTick] =
           filter (\<lambda>ev. \<not> is_toggle ev) [ClickRun example_env, PollTick]"
    by simp_all
  note th = toggle_after_submit_ignored [OF a b c d f]
  note th' = toggle_after_submit_ignored [OF a b c' d' f']
  have g: "as_mp3_var example_filled"
    by (simp add: example_filled_eq)
  let ?s3 = "run ?s1 [ClickRun example_env, ClickToggle, PollTick]"
  have "run ?s1 (ClickRun example_env # ClickToggle # PollTick # ?we) = run ?s3 ?we"
    by (simp only: run_Cons run_Nil)
  also have "\<dots> = (do_download example_world [] example_job ?s3)
      \<lparr>threads := remove_nth 0 (threads ?s3)\<rparr>"
    by (rule worker_alone)
       (simp_all add: example_toggled_eq example_running_eq started_def example_job_def)
  finally have h: "\<not> as_mp3_var (run ?s1 (ClickRun example_env # ClickToggle # PollTick # ?we))"
    by (simp add: example_toggled_eq)
  have k: "threads example_filled = []"
    by (simp add: example_filled_eq)
  have ns: "\<forall>ev\<in>set [ClickRun example_env, ClickToggle, PollTick]. \<not> is_worker_step ev"
    by simp
  from th' [THEN conjunct2, THEN conjunct2, THEN conjunct1, THEN mp, OF ns]
  have t: "map th_job (threads ?s3) = [request example_filled]"
    by (simp only: k list.map append_Nil)
  from th [THEN conjunct2, THEN conjunct1] g have m: "job_mp3 (request example_filled)"
    by (simp only:)
  note th4 = th [THEN conjunct2, THEN conjunct2, THEN conjunct2]
  have u: "untoggle (run ?s1 (ClickRun example_env # ClickToggle # PollTick # ?we)) =
           untoggle (run ?s1 (ClickRun example_env # PollTick # ?we))"
    by (rule th4 [THEN conjunct1])
  have v: "tool_calls (run ?s1 (ClickRun example_env # ClickToggle # PollTick # ?we)) =
           tool_calls (run ?s1 (ClickRun example_env # PollTick # ?we))"
    by (rule th4 [THEN conjunct2, THEN conjunct2, THEN conjunct1])
  from a b c g h m t u v show ?thesis
    by (intro conjI)
qed

section \<open>A cancel request and the worker\<close>

lemma uncancel_sel [simp]:
  "url_var (uncancel s) = url_var s"
  "save_dir_var (uncancel s) = save_dir_var s"
  "as_mp3_var (uncancel s) = as_mp3_var s"
  "is_downloading (uncancel s) = False"
  "worker_thread (uncancel s) = worker_thread s"
  "run_btn (uncancel s) = run_btn s"
  "cancel_btn (uncancel s) = cancel_btn s"
  "dialogs (uncancel s) = dialogs s"
  "opened (uncancel s) = opened s"
  "tool_calls (uncancel s) = tool_calls s"
  "threads (uncancel s) = threads s"
  by (simp_all add: uncancel_def)

lemma uncancel_idem [simp]: "uncancel (uncancel s) = uncancel s"
  by (simp add: uncancel_def)

lemma uncancel_cancel: "uncancel (step s ClickCancel) = uncancel s"
  by (simp add: uncancel_def on_cancel_clicked_def log_def)

lemma uncancel_callback:
  "uncancel (callback_effect cb (uncancel s)) = uncancel (callback_effect cb s)"
proof -
  from callback_effect_lines obtain ls
    where "\<forall>s. callback_effect cb s = s\<lparr>log_queue := log_queue s @ ls\<rparr>" ..
  then show ?thesis
    by (simp add: uncancel_def)
qed

lemma uncancel_do_download:
  "uncancel (do_download w cbs j (uncancel s)) = uncancel (do_download w cbs j s)"
proof -
  from do_download_effect obtain ls ds ps cs where "\<forall>s. do_download w cbs j s =
     s\<lparr>log_queue := log_queue s @ ls, is_downloading := False, run_btn := Normal,
       cancel_btn := Disabled, dialogs := dialogs s @ ds, opened := opened s @ ps,
       tool_calls := tool_calls s @ cs\<rparr>"
    by blast
  then show ?thesis
    by (simp add: uncancel_def)
qed

lemma uncancel_exec: "uncancel (exec w st (uncancel s)) = uncancel (exec w st s)"
  by (cases st) (simp_all add: uncancel_def log_def startfile_def)

lemma uncancel_set_phase: "uncancel (set_phase i p s) = set_phase i p (uncancel s)"
  by (simp add: uncancel_def set_phase_def)

lemma uncancel_worker_start:
  "uncancel (worker_start i w (uncancel s)) = uncancel (worker_start i w s)"
  by (simp add: worker_start_def Let_def uncancel_set_phase split: option.split)
     (simp add: uncancel_def set_phase_def)

lemma uncancel_worker_step:
  "uncancel (worker_step i w (uncancel s)) = uncancel (worker_step i w s)"
proof (cases "th_phase (threads s ! i)")
  case (After sts)
  show ?thesis
  proof (cases sts)
    case Nil
    with After show ?thesis
      by (simp add: worker_step_def) (simp add: uncancel_def)
  next
    case (Cons st rest)
    have "uncancel (set_phase i (After rest) (exec w st (uncancel s))) =
          set_phase i (After rest) (uncancel (exec w st (uncancel s)))"
      by (rule uncancel_set_phase)
    also have "\<dots> = set_phase i (After rest) (uncancel (exec w st s))"
      by (simp only: uncancel_exec)
    also have "\<dots> = uncancel (set_phase i (After rest) (exec w st s))"
      by (rule uncancel_set_phase [symmetric])
    finally show ?thesis
      using After Cons by (simp add: worker_step_def)
  qed
qed (simp_all add: worker_step_def)

lemma uncancel_threads_upd: "uncancel (s\<lparr>threads := ts\<rparr>) = (uncancel s)\<lparr>threads := ts\<rparr>"
  by (simp add: uncancel_def)

lemma uncancel_on_run_clicked:
  "\<not> is_downloading s \<Longrightarrow>
   uncancel (on_run_clicked e (uncancel s)) = uncancel (on_run_clicked e s)"
  by (simp add: on_run_clicked_def Let_def) (simp add: uncancel_def log_def)

text \<open>
  In a state where the handler of the run button can only be reached with the flag clear,
  an event other than a cancel request does the same to a state and to the state without
  the traces of cancel requests.
\<close>

lemma uncancel_step:
  assumes "run_btn s = Normal \<longrightarrow> \<not> is_downloading s" and "\<not> is_cancel e"
  shows "uncancel (step (uncancel s) e) = uncancel (step s e)"
proof (cases e)
  case (ClickRun env)
  show ?thesis
  proof (cases "run_btn s = Normal")
    case True
    with assms(1) have "\<not> is_downloading s"
      by simp
    then have "uncancel (on_run_clicked env (uncancel s)) = uncancel (on_run_clicked env s)"
      by (rule uncancel_on_run_clicked)
    with True ClickRun show ?thesis
      by simp
  next
    case False
    with ClickRun show ?thesis
      by simp
  qed
next
  case ClickCancel
  with assms(2) show ?thesis
    by simp
next
  case ClickToggle
  then show ?thesis
    by (simp add: toggle_def on_toggle_changed_def) (simp add: uncancel_def log_def)
next
  case PollTick
  then show ?thesis
    by (simp add: uncancel_def poll_log_queue_eq)
next
  case (ToolCallback i cb)
  then show ?thesis
    by (simp add: uncancel_callback)
next
  case (WorkerStart i w)
  then show ?thesis
    by (simp add: uncancel_worker_start)
next
  case (ToolReturn i w)
  then show ?thesis
    by (simp add: uncancel_set_phase)
next
  case (WorkerStep i w)
  then show ?thesis
    by (simp add: uncancel_worker_step)
qed (simp_all add: uncancel_def paste_from_clipboard_def choose_dir_def split: option.split)

lemma uncancel_run:
  assumes "uncancel s = uncancel t" and "consistent s" and "consistent t"
  shows "uncancel (run s evs) = uncancel (run t (filter (\<lambda>e. \<not> is_cancel e) evs))"
  using assms
proof (induction evs arbitrary: s t)
  case Nil
  then show ?case by (simp add: run_Nil)
next
  case (Cons e evs)
  show ?case
  proof (cases "is_cancel e")
    case True
    then have e: "e = ClickCancel"
      by (cases e) simp_all
    have "uncancel (step s e) = uncancel t"
      unfolding e uncancel_cancel by (rule Cons.prems(1))
    moreover have "consistent (step s e)"
      using Cons.prems(2) by (rule consistent_step)
    ultimately have "uncancel (run (step s e) evs) =
        uncancel (run t (filter (\<lambda>e. \<not> is_cancel e) evs))"
      using Cons.prems(3) by (rule Cons.IH)
    with True show ?thesis
      by (simp add: run_Cons)
  next
    case False
    have "uncancel (step s e) = uncancel (step (uncancel s) e)"
      using consistent_idle [OF Cons.prems(2)] False by (intro uncancel_step [symmetric] impI)
    also have "\<dots> = uncancel (step (uncancel t) e)"
      by (simp only: Cons.prems(1))
    also have "\<dots> = uncancel (step t e)"
      using consistent_idle [OF Cons.prems(3)] False by (intro uncancel_step impI)
    finally have "uncancel (step s e) = uncancel (step t e)" .
    moreover have "consistent (step s e)" "consistent (step t e)"
      using Cons.prems(2,3) by (simp_all add: consistent_step)
    ultimately have "uncancel (run (step s e) evs) =
        uncancel (run (step t e) (filter (\<lambda>e. \<not> is_cancel e) evs))"
      by (rule Cons.IH)
    with False show ?thesis
      by (simp add: run_Cons)
  qed
qed

lemma do_download_ignores_flag:
  "do_download w cbs j (s\<lparr>is_downloading := b\<rparr>) = do_download w cbs j s"
proof -
  from do_download_effect obtain ls ds ps cs where "\<forall>s. do_download w cbs j s =
     s\<lparr>log_queue := log_queue s @ ls, is_downloading := False, run_btn := Normal,
       cancel_btn := Disabled, dialogs := dialogs s @ ds, opened := opened s @ ps,
       tool_calls := tool_calls s @ cs\<rparr>"
    by blast
  then show ?thesis
    by simp
qed

text \<open>
  Claim C9. A cancel request only puts its log line on the queue and clears the flag.
  The worker's code does not read the flag: run on a state with the flag set or clear it
  does the same. From any state of a run, two sequences of events (of the interface and
  of the workers, statement by statement) that differ only in cancel requests end in
  states that are the same apart from the traces of the cancel requests (the flag and
  their log lines): the same calls of the tool with the same options, the same opened
  paths, message boxes, threads, buttons and other log lines.
\<close>

theorem cancel_does_not_reach_worker:
  assumes "filter (\<lambda>ev. \<not> is_cancel ev) evs1 = filter (\<lambda>ev. \<not> is_cancel ev) evs2"
  shows
    "uncancel (run (run (init dl) pre) evs1) = uncancel (run (run (init dl) pre) evs2) \<and>
     tool_calls (run (run (init dl) pre) evs1) = tool_calls (run (run (init dl) pre) evs2) \<and>
     opened (run (run (init dl) pre) evs1) = opened (run (run (init dl) pre) evs2) \<and>
     dialogs (run (run (init dl) pre) evs1) = dialogs (run (run (init dl) pre) evs2) \<and>
     threads (run (run (init dl) pre) evs1) = threads (run (run (init dl) pre) evs2) \<and>
     on_cancel_clicked s =
       s\<lparr>log_queue := log_queue s @ [LogCancelRequested], is_downloading := False\<rparr> \<and>
     do_download w cbs j (s\<lparr>is_downloading := b\<rparr>) = do_download w cbs j s \<and>
     do_download w cbs j (on_cancel_clicked s) =
       (do_download w cbs j s)\<lparr>log_queue :=
          log_queue s @ [LogCancelRequested] @
          drop (length (log_queue s)) (log_queue (do_download w cbs j s))\<rparr>"
proof -
  define S where "S = run (init dl) pre"
  define nc where "nc = (\<lambda>ev. \<not> is_cancel ev)"
  have c: "consistent S"
    unfolding S_def by (rule reachable_consistent)
  have "uncancel (run S evs1) = uncancel (run S (filter nc evs1))"
    unfolding nc_def using refl c c by (rule uncancel_run)
  also have "\<dots> = uncancel (run S (filter nc evs2))"
    unfolding nc_def by (simp only: assms)
  also have "\<dots> = uncancel (run S evs2)"
    unfolding nc_def using refl c c by (rule uncancel_run [symmetric])
  finally have 1: "uncancel (run S evs1) = uncancel (run S evs2)" .
  have 2: "tool_calls (run S evs1) = tool_calls (run S evs2)"
    using arg_cong [OF 1, of tool_calls] by (simp only: uncancel_sel)
  have 3: "opened (run S evs1) = opened (run S evs2)"
    using arg_cong [OF 1, of opened] by (simp only: uncancel_sel)
  have 4: "dialogs (run S evs1) = dialogs (run S evs2)"
    using arg_cong [OF 1, of dialogs] by (simp only: uncancel_sel)
  have 5: "threads (run S evs1) = threads (run S evs2)"
    using arg_cong [OF 1, of threads] by (simp only: uncancel_sel)
  have 6: "on_cancel_clicked s =
       s\<lparr>log_queue := log_queue s @ [LogCancelRequested], is_downloading := False\<rparr>"
    by (simp add: on_cancel_clicked_def log_def)
  have 7: "do_download w cbs j (s\<lparr>is_downloading := b\<rparr>) = do_download w cbs j s"
    by (rule do_download_ignores_flag)
  have 8: "do_download w cbs j (on_cancel_clicked s) =
       (do_download w cbs j s)\<lparr>log_queue :=
          log_queue s @ [LogCancelRequested] @
          drop (length (log_queue s)) (log_queue (do_download w cbs j s))\<rparr>"
  proof -
    from do_download_effect obtain ls ds ps cs where "\<forall>s. do_download w cbs j s =
       s\<lparr>log_queue := log_queue s @ ls, is_downloading := False, run_btn := Normal,
         cancel_btn := Disabled, dialogs := dialogs s @ ds, opened := opened s @ ps,
         tool_calls := tool_calls s @ cs\<rparr>"
      by blast
    then show ?thesis
      by (simp add: on_cancel_clicked_def log_def)
  qed
  from 1 2 3 4 5 6 7 8 show ?thesis
    unfolding S_def by (intro conjI)
qed

theorem cancel_does_not_reach_worker_witness:
  "filter (\<lambda>ev. \<not> is_cancel ev)
     (WorkerStart 0 example_world # ClickCancel # ToolReturn 0 example_world #
      replicate 7 (WorkerStep 0 example_world)) =
   filter (\<lambda>ev. \<not> is_cancel ev) (worker_events 0 example_world [] example_job) \<and>
   \<not> is_downloading (run example_running [WorkerStart 0 example_world, ClickCancel]) \<and>
   is_downloading (run example_running [WorkerStart 0 example_world]) \<and>
   uncancel (run example_running
      (WorkerStart 0 example_world # ClickCancel # ToolReturn 0 example_world #
       replicate 7 (WorkerStep 0 example_world))) =
     uncancel (run example_running (worker_events 0 example_world [] example_job)) \<and>
   tool_calls (run example_running
      (WorkerStart 0 example_world # ClickCancel # ToolReturn 0 example_world #
       replicate 7 (WorkerStep 0 example_world))) =
     tool_calls (run example_running (worker_events 0 example_world [] example_job)) \<and>
   opened (run example_running
      (WorkerStart 0 example_world # ClickCancel # ToolReturn 0 example_world #
       replicate 7 (WorkerStep 0 example_world))) =
     opened (run example_running (worker_events 0 example_world [] example_job))"
proof -
  let ?evs = "WorkerStart 0 example_world # ClickCancel # ToolReturn 0 example_world #
      replicate 7 (WorkerStep 0 example_world)"
  let ?we = "worker_events 0 example_world [] example_job"
  have a: "filter (\<lambda>ev. \<not> is_cancel ev) ?evs = filter (\<lambda>ev. \<not> is_cancel ev) ?we"
    by (simp add: worker_events_def example_world_def after_tool_def done_stmts_def
        finally_stmts_def Let_def eval_nat_numeral)
  have b: "\<not> is_downloading (run example_running [WorkerStart 0 example_world, ClickCancel])"
    and c: "is_downloading (run example_running [WorkerStart 0 example_world])"
    by (simp_all add: run_def example_running_eq worker_start_def set_phase_def
        example_world_def on_cancel_clicked_def log_def Let_def)
  note th = cancel_does_not_reach_worker [OF a, where dl = None
      and pre = "[EditUrl (ascii ''https://example.com/watch?v=abc''),
                   EditDir (ascii ''/tmp/out''), ClickRun example_env]",
      folded example_running_def]
  have d: "uncancel (run example_running ?evs) = uncancel (run example_running ?we)"
    by (rule th [THEN conjunct1])
  have e: "tool_calls (run example_running ?evs) = tool_calls (run example_running ?we)"
    by (rule th [THEN conjunct2, THEN conjunct1])
  have f: "opened (run example_running ?evs) = opened (run example_running ?we)"
    by (rule th [THEN conjunct2, THEN conjunct2, THEN conjunct1])
  from a b c d e f show ?thesis
    by (intro conjI)
qed

end
